theory Spec2Isabelle
  imports Main
begin

section \<open>JavaScript strings\<close>

text \<open>
  The program is JavaScript. Strings are modelled as \<^typ>\<open>string\<close>; the few string
  primitives the sources use are written out here.

  \<^verbatim>\<open>s.split(c)\<close> with a one-character separator: the pieces between the separators,
  always at least one piece (\<^verbatim>\<open>''.split('.')\<close> is \<^verbatim>\<open>['']\<close>).
\<close>

fun split_on :: "char \<Rightarrow> string \<Rightarrow> string list" where
  "split_on c [] = [[]]"
| "split_on c (x # xs) =
     (if x = c then [] # split_on c xs
      else (x # hd (split_on c xs)) # tl (split_on c xs))"

text \<open>\<^verbatim>\<open>xs.join(sep)\<close> on an array of strings.\<close>

fun join_with :: "string \<Rightarrow> string list \<Rightarrow> string" where
  "join_with sep [] = []"
| "join_with sep [s] = s"
| "join_with sep (s # t # ss) = s @ sep @ join_with sep (t # ss)"

text \<open>
  \<^verbatim>\<open>s.replace(pat, rep)\<close> with a string pattern: only the first occurrence of
  \<^verbatim>\<open>pat\<close> is replaced. (The replacement texts of this program are array indices,
  lower-cased field names and rule arguments; the \<^verbatim>\<open>$\<close> patterns of a replacement text are
  not interpreted here.)
\<close>

fun js_replace :: "string \<Rightarrow> string \<Rightarrow> string \<Rightarrow> string" where
  "js_replace pat rep [] = (if pat = [] then rep else [])"
| "js_replace pat rep (x # xs) =
     (if take (length pat) (x # xs) = pat then rep @ drop (length pat) (x # xs)
      else x # js_replace pat rep xs)"

text \<open>\<^verbatim>\<open>s.includes(t)\<close> for a one-character \<^verbatim>\<open>t\<close>.\<close>

definition includes_char :: "string \<Rightarrow> char \<Rightarrow> bool" where
  "includes_char s c = (c \<in> set s)"

text \<open>The regular expression class \<^verbatim>\<open>\d\<close>: an ASCII decimal digit.\<close>

definition is_digit :: "char \<Rightarrow> bool" where
  "is_digit c = (c \<in> set ''0123456789'')"

text \<open>\<^verbatim>\<open>String(n)\<close> for an array index \<^verbatim>\<open>n\<close>: its decimal digits.\<close>

definition digit_char :: "nat \<Rightarrow> char" where
  "digit_char n = ''0123456789'' ! (n mod 10)"

fun show_nat :: "nat \<Rightarrow> string" where
  "show_nat n = (if n < 10 then [digit_char n] else show_nat (n div 10) @ [digit_char n])"

declare show_nat.simps [simp del]

section \<open>Io.toWildcardPath (io.js)\<close>

text \<open>
  \<^verbatim>\<open>
  toWildcardPath(path) {
      return _.map(path.split('.'), segment => {
          if (/^\d*$/.test(segment)) { return '*' }
          return segment
      }).join('.')
  }
  \<close>
  The regular expression \<^verbatim>\<open>/^\d*$/\<close> accepts every string of decimal digits, the empty
  string among them.
\<close>

definition re_digits_star :: "string \<Rightarrow> bool" where
  "re_digits_star segment = list_all is_digit segment"

definition wildcard_segment :: "string \<Rightarrow> string" where
  "wildcard_segment segment = (if re_digits_star segment then ''*'' else segment)"

definition toWildcardPath :: "string \<Rightarrow> string" where
  "toWildcardPath path = join_with ''.'' (map wildcard_segment (split_on CHR ''.'' path))"

text \<open>
  The conversion as the specification words it: a segment is replaced when it is purely
  numeric, that is a non-negative integer index (one digit at least).
\<close>

definition purely_numeric :: "string \<Rightarrow> bool" where
  "purely_numeric segment = (segment \<noteq> [] \<and> list_all is_digit segment)"

definition spec_wildcard_segment :: "string \<Rightarrow> string" where
  "spec_wildcard_segment segment = (if purely_numeric segment then ''*'' else segment)"

definition spec_toWildcardPath :: "string \<Rightarrow> string" where
  "spec_toWildcardPath path =
     join_with ''.'' (map spec_wildcard_segment (split_on CHR ''.'' path))"

section \<open>JavaScript values\<close>

text \<open>
  The form tree, the items of its arrays and the subjects of the rules are JavaScript
  values. Numbers are restricted to integers. An object is the list of its own
  enumerable properties in enumeration order, with distinct keys; inherited properties
  (\<^verbatim>\<open>constructor\<close>, \<^verbatim>\<open>toString\<close>, ...) are not part of the model.
\<close>

datatype jsval =
    JUndefined
  | JNull
  | JBool bool
  | JNum int
  | JStr string
  | JArr "jsval list"
  | JObj "(string \<times> jsval) list"

text \<open>\<^verbatim>\<open>!value\<close>, \<^verbatim>\<open>if (value)\<close>, \<^verbatim>\<open>a || b\<close>: the truthiness of the language.\<close>

fun js_truthy :: "jsval \<Rightarrow> bool" where
  "js_truthy JUndefined = False"
| "js_truthy JNull = False"
| "js_truthy (JBool b) = b"
| "js_truthy (JNum n) = (n \<noteq> 0)"
| "js_truthy (JStr s) = (s \<noteq> [])"
| "js_truthy (JArr xs) = True"
| "js_truthy (JObj kvs) = True"

definition nullish :: "jsval \<Rightarrow> bool" where
  "nullish v = (v = JUndefined \<or> v = JNull)"

datatype js_type = TUndefined | TObject | TBoolean | TNumber | TString

fun typeof :: "jsval \<Rightarrow> js_type" where
  "typeof JUndefined = TUndefined"
| "typeof JNull = TObject"
| "typeof (JBool b) = TBoolean"
| "typeof (JNum n) = TNumber"
| "typeof (JStr s) = TString"
| "typeof (JArr xs) = TObject"
| "typeof (JObj kvs) = TObject"

fun isArray :: "jsval \<Rightarrow> bool" where
  "isArray (JArr xs) = True"
| "isArray v = False"

definition show_int :: "int \<Rightarrow> string" where
  "show_int n = (if n < 0 then CHR ''-'' # show_nat (nat (- n)) else show_nat (nat n))"

text \<open>\<^verbatim>\<open>String(value)\<close>, as template literals, \<^verbatim>\<open>RegExp.test\<close> and \<^verbatim>\<open>new URL\<close> apply it.\<close>

fun js_toString :: "jsval \<Rightarrow> string" and js_join :: "jsval list \<Rightarrow> string" where
  "js_toString JUndefined = ''undefined''"
| "js_toString JNull = ''null''"
| "js_toString (JBool b) = (if b then ''true'' else ''false'')"
| "js_toString (JNum n) = show_int n"
| "js_toString (JStr s) = s"
| "js_toString (JArr xs) = js_join xs"
| "js_toString (JObj kvs) = ''[object Object]''"
| "js_join [] = []"
| "js_join (x # xs) =
     (if x = JUndefined \<or> x = JNull then [] else js_toString x)
     @ (if xs = [] then [] else CHR '','' # js_join xs)"

text \<open>
  An array index as a property key: the canonical decimal form of a number (no leading
  zero).
\<close>

fun digits_value :: "string \<Rightarrow> nat \<Rightarrow> nat" where
  "digits_value [] acc = acc"
| "digits_value (c # cs) acc =
     digits_value cs (10 * acc + length (takeWhile (\<lambda>d. d \<noteq> c) ''0123456789''))"

definition index_of_key :: "string \<Rightarrow> nat option" where
  "index_of_key k =
     (if k \<noteq> [] \<and> list_all is_digit k \<and> (k = ''0'' \<or> hd k \<noteq> CHR ''0'')
      then Some (digits_value k 0) else None)"

text \<open>
  \<^verbatim>\<open>value[key]\<close> on a value that is neither \<^verbatim>\<open>null\<close> nor \<^verbatim>\<open>undefined\<close> (on those the
  access raises a TypeError, which every caller below checks first).
\<close>

fun get_prop :: "jsval \<Rightarrow> string \<Rightarrow> jsval" where
  "get_prop (JObj kvs) k = (case map_of kvs k of Some v \<Rightarrow> v | None \<Rightarrow> JUndefined)"
| "get_prop (JArr xs) k =
     (if k = ''length'' then JNum (int (length xs))
      else (case index_of_key k of
              Some i \<Rightarrow> (if i < length xs then xs ! i else JUndefined)
            | None \<Rightarrow> JUndefined))"
| "get_prop (JStr s) k =
     (if k = ''length'' then JNum (int (length s))
      else (case index_of_key k of
              Some i \<Rightarrow> (if i < length s then JStr [s ! i] else JUndefined)
            | None \<Rightarrow> JUndefined))"
| "get_prop v k = JUndefined"

text \<open>\<^verbatim>\<open>key in Object(value)\<close>, own properties only.\<close>

fun has_prop :: "jsval \<Rightarrow> string \<Rightarrow> bool" where
  "has_prop (JObj kvs) k = (k \<in> set (map fst kvs))"
| "has_prop (JArr xs) k =
     (k = ''length'' \<or> (case index_of_key k of Some i \<Rightarrow> i < length xs | None \<Rightarrow> False))"
| "has_prop (JStr s) k =
     (k = ''length'' \<or> (case index_of_key k of Some i \<Rightarrow> i < length s | None \<Rightarrow> False))"
| "has_prop v k = False"

text \<open>
  \<^verbatim>\<open>Object.entries(value)\<close>: \<open>None\<close> is the TypeError raised on \<^verbatim>\<open>null\<close> and
  \<^verbatim>\<open>undefined\<close>. \<^verbatim>\<open>array.entries()\<close> pairs every item with its index.
\<close>

fun indexed :: "nat \<Rightarrow> 'a list \<Rightarrow> (nat \<times> 'a) list" where
  "indexed i [] = []"
| "indexed i (x # xs) = (i, x) # indexed (Suc i) xs"

fun object_entries :: "jsval \<Rightarrow> (string \<times> jsval) list option" where
  "object_entries JUndefined = None"
| "object_entries JNull = None"
| "object_entries (JObj kvs) = Some kvs"
| "object_entries (JArr xs) = Some (map (\<lambda>(i, x). (show_nat i, x)) (indexed 0 xs))"
| "object_entries (JStr s) = Some (map (\<lambda>(i, c). (show_nat i, JStr [c])) (indexed 0 s))"
| "object_entries v = Some []"

text \<open>
  Assignment to, and deletion of, a property of an object kept as a list: an existing
  key keeps its place, a new key goes last. \<^verbatim>\<open>Object.assign(target, source)\<close> assigns
  the properties of the source in their order.
\<close>

fun obj_set :: "(string \<times> 'a) list \<Rightarrow> string \<Rightarrow> 'a \<Rightarrow> (string \<times> 'a) list" where
  "obj_set [] k v = [(k, v)]"
| "obj_set ((k', v') # kvs) k v =
     (if k' = k then (k, v) # kvs else (k', v') # obj_set kvs k v)"

fun obj_assign :: "(string \<times> 'a) list \<Rightarrow> (string \<times> 'a) list \<Rightarrow> (string \<times> 'a) list" where
  "obj_assign target [] = target"
| "obj_assign target ((k, v) # source) = obj_assign (obj_set target k v) source"

definition obj_delete :: "(string \<times> 'a) list \<Rightarrow> string \<Rightarrow> (string \<times> 'a) list" where
  "obj_delete kvs k = filter (\<lambda>kv. fst kv \<noteq> k) kvs"

text \<open>
  lodash \<^verbatim>\<open>_.get(object, path)\<close> for the paths of this program, which are dot-joined
  (the bracket syntax of lodash paths is not modelled). A path that is itself a property
  of the object, or has no dot, is one key; any other path is walked segment by segment,
  and the walk yields \<^verbatim>\<open>undefined\<close> as soon as it meets \<^verbatim>\<open>null\<close> or \<^verbatim>\<open>undefined\<close>.
\<close>

fun base_get :: "jsval \<Rightarrow> string list \<Rightarrow> jsval" where
  "base_get object [] = object"
| "base_get object (k # ks) =
     (if nullish object then JUndefined else base_get (get_prop object k) ks)"

definition cast_path :: "jsval \<Rightarrow> string \<Rightarrow> string list" where
  "cast_path object path =
     (if CHR ''.'' \<notin> set path \<or> has_prop object path then [path]
      else split_on CHR ''.'' path)"

definition lodash_get :: "jsval \<Rightarrow> string \<Rightarrow> jsval" where
  "lodash_get object path = base_get object (cast_path object path)"

section \<open>What the program takes from outside\<close>

text \<open>
  The translation function \<^verbatim>\<open>Push.app.$t\<close>, lodash's \<^verbatim>\<open>_.camelCase\<close> and
  \<^verbatim>\<open>_.lowerCase\<close>, \<^verbatim>\<open>moment(v).isValid()\<close>, the \<^verbatim>\<open>URL\<close> parser, the
  \<^verbatim>\<open>isEmail\<close> of the validator package, the conversion of a string to a number
  (\<open>None\<close> is \<^verbatim>\<open>NaN\<close>) and the global helper \<^verbatim>\<open>truthy\<close> are not defined in the
  sources. They are parameters of the model.
\<close>

record env =
  translate :: "string \<Rightarrow> string"
  camelCase :: "string \<Rightarrow> string"
  lowerCase :: "string \<Rightarrow> string"
  moment_valid :: "jsval \<Rightarrow> bool"
  url_parses :: "string \<Rightarrow> bool"
  isEmail :: "string \<Rightarrow> bool"
  string_to_number :: "string \<Rightarrow> int option"
  truthy :: "jsval \<Rightarrow> bool"

text \<open>\<^verbatim>\<open>Number(value)\<close>; \<open>None\<close> is \<^verbatim>\<open>NaN\<close>.\<close>

fun to_number :: "env \<Rightarrow> jsval \<Rightarrow> int option" where
  "to_number e JUndefined = None"
| "to_number e JNull = Some 0"
| "to_number e (JBool b) = Some (if b then 1 else 0)"
| "to_number e (JNum n) = Some n"
| "to_number e (JStr s) = string_to_number e s"
| "to_number e v = string_to_number e (js_toString v)"

section \<open>Validate (validate.js)\<close>

subsection \<open>What a validation throws, and what a rule does\<close>

text \<open>
  A message list of a bag is an array of strings; a bare string can stand in its place
  (\<^verbatim>\<open>Bag.record\<close> coerces it, and a caught configuration error leaves one behind).
\<close>

datatype message = Bare string | Listed "string list"

text \<open>
  \<^verbatim>\<open>Validate.validate\<close> throws the object of the failing fields
  (\<^verbatim>\<open>throw filledErrors\<close>) or the string of an unknown rule
  (\<^verbatim>\<open>throw `${ruleMethodName}() is not a validator method`\<close>); the runtime itself
  throws a TypeError where the code reads a property of \<^verbatim>\<open>undefined\<close> or calls what
  is not a function.
\<close>

datatype thrown =
    ErrorMap "(string \<times> message) list"
  | ConfigError string
  | RuntimeError

text \<open>
  The own enumerable properties of a thrown value, as \<^verbatim>\<open>for (let key in errors)\<close> and
  \<^verbatim>\<open>_.mapValues(errors, ...)\<close> see them: the entries of the object, the characters of
  the string by index, nothing for an Error object.
\<close>

fun thrown_entries :: "thrown \<Rightarrow> (string \<times> message) list" where
  "thrown_entries (ErrorMap m) = m"
| "thrown_entries (ConfigError s) = map (\<lambda>(i, c). (show_nat i, Bare [c])) (indexed 0 s)"
| "thrown_entries RuntimeError = []"

text \<open>
  A rule method returns (\<open>Passed\<close>), returns a \<^verbatim>\<open>BreakToNextField\<close>, throws a
  message string (\<open>Failed\<close>), or raises a runtime error (\<open>Crashed\<close>).
\<close>

datatype rule_result = Passed | BreakToNextField | Failed string | Crashed

subsection \<open>localize\<close>

text \<open>
  \<^verbatim>\<open>
  localize(name, data = null) {
      let text = Push.app.$t(`validation.${name}`)
      if (data) { for (let key in data) { text = text.replace(`{${key}}`, data[key]) } }
      return text
  }
  \<close>
\<close>

fun localize_data :: "string \<Rightarrow> (string \<times> string) list \<Rightarrow> string" where
  "localize_data text [] = text"
| "localize_data text ((key, v) # data) =
     localize_data (js_replace (''{'' @ key @ ''}'') v text) data"

definition localize :: "env \<Rightarrow> string \<Rightarrow> (string \<times> string) list \<Rightarrow> string" where
  "localize e name data = localize_data (translate e (''validation.'' @ name)) data"

subsection \<open>The rule predicates\<close>

definition rule_nullable :: "jsval \<Rightarrow> rule_result" where
  "rule_nullable v = (if \<not> js_truthy v then BreakToNextField else Passed)"

text \<open>An exception of \<^verbatim>\<open>moment\<close> is caught by the rule and becomes the same message.\<close>

definition rule_date :: "env \<Rightarrow> jsval \<Rightarrow> rule_result" where
  "rule_date e v = (if moment_valid e v then Passed else Failed (localize e ''date'' []))"

text \<open>
  \<^verbatim>\<open>/\d{2,}:\d{2,}:*\d*/.test(value)\<close>: the string has two digits, a colon and two digits
  somewhere in a row.
\<close>

fun re_time :: "string \<Rightarrow> bool" where
  "re_time (a # b # c # d # f # rest) =
     ((is_digit a \<and> is_digit b \<and> c = CHR '':'' \<and> is_digit d \<and> is_digit f)
      \<or> re_time (b # c # d # f # rest))"
| "re_time s = False"

definition rule_time :: "env \<Rightarrow> jsval \<Rightarrow> rule_result" where
  "rule_time e v =
     (if re_time (js_toString v) then
        (if moment_valid e (JStr (''2000-01-01 '' @ js_toString v)) then Passed
         else Failed (localize e ''time'' []))
      else Failed (localize e ''time'' []))"

definition rule_array :: "env \<Rightarrow> jsval \<Rightarrow> rule_result" where
  "rule_array e v = (if isArray v then Passed else Failed (localize e ''array'' []))"

definition rule_object :: "env \<Rightarrow> jsval \<Rightarrow> rule_result" where
  "rule_object e v = (if typeof v = TObject then Passed else Failed (localize e ''object'' []))"

definition rule_url :: "env \<Rightarrow> jsval \<Rightarrow> rule_result" where
  "rule_url e v =
     (if url_parses e (js_toString v) then Passed else Failed (localize e ''url'' []))"

definition rule_boolean :: "env \<Rightarrow> jsval \<Rightarrow> rule_result" where
  "rule_boolean e v =
     (if typeof v = TBoolean then Passed else Failed (localize e ''boolean'' []))"

definition rule_accepted :: "env \<Rightarrow> jsval \<Rightarrow> rule_result" where
  "rule_accepted e v =
     (if typeof v = TBoolean \<and> js_truthy v then Passed
      else Failed (localize e ''accepted'' []))"

definition rule_integer :: "env \<Rightarrow> jsval \<Rightarrow> rule_result" where
  "rule_integer e v =
     (if to_number e v \<noteq> None then Passed else Failed (localize e ''integer'' []))"

definition rule_required :: "env \<Rightarrow> jsval \<Rightarrow> rule_result" where
  "rule_required e v =
     (case v of
        JArr xs \<Rightarrow> (if length xs = 0 then Failed (localize e ''required'' []) else Passed)
      | _ \<Rightarrow> (if js_truthy v \<and> v \<noteq> JNull then Passed
              else Failed (localize e ''required'' [])))"

text \<open>
  \<^verbatim>\<open>requiredWith(value, field)\<close> reads \<^verbatim>\<open>this._data[field]\<close> (already in its
  \<^verbatim>\<open>console.log\<close>), a TypeError when the data is \<^verbatim>\<open>null\<close> or \<^verbatim>\<open>undefined\<close>. A rule
  written without an argument passes \<^verbatim>\<open>undefined\<close>, the key \<^verbatim>\<open>"undefined"\<close>.
\<close>

definition rule_requiredWith :: "env \<Rightarrow> jsval \<Rightarrow> jsval \<Rightarrow> string list \<Rightarrow> rule_result" where
  "rule_requiredWith e data v args =
     (if nullish data then Crashed
      else if truthy e (get_prop data (case args of [] \<Rightarrow> ''undefined'' | field # _ \<Rightarrow> field))
      then rule_required e v
      else Passed)"

definition rule_string :: "env \<Rightarrow> jsval \<Rightarrow> rule_result" where
  "rule_string e v =
     (if v = JNull \<or> typeof v = TString then Passed else Failed (localize e ''string'' []))"

definition rule_email :: "env \<Rightarrow> jsval \<Rightarrow> rule_result" where
  "rule_email e v =
     (case v of
        JStr s \<Rightarrow> (if isEmail e s then Passed else Failed (localize e ''email'' []))
      | _ \<Rightarrow> Failed (localize e ''string'' []))"

text \<open>
  \<^verbatim>\<open>min(value, count)\<close>: \<^verbatim>\<open>count\<close> is the first argument of the rule, a string, or
  \<^verbatim>\<open>undefined\<close>; the comparison converts it to a number and is false on \<^verbatim>\<open>NaN\<close>.
\<close>

definition rule_min :: "env \<Rightarrow> jsval \<Rightarrow> string list \<Rightarrow> rule_result" where
  "rule_min e v args =
     (let count = (case args of [] \<Rightarrow> None | c # _ \<Rightarrow> string_to_number e c);
          shown = (case args of [] \<Rightarrow> ''undefined'' | c # _ \<Rightarrow> c)
      in case v of
           JStr s \<Rightarrow>
             (case count of
                Some n \<Rightarrow> (if int (length s) < n
                           then Failed (localize e ''min_string'' [(''count'', shown)])
                           else Passed)
              | None \<Rightarrow> Passed)
         | JNum x \<Rightarrow>
             (case count of
                Some n \<Rightarrow> (if x < n
                           then Failed (localize e ''min_number'' [(''count'', shown)])
                           else Passed)
              | None \<Rightarrow> Passed)
         | _ \<Rightarrow> Failed (localize e ''min_unknown'' []))"

subsection \<open>parseRules and parseRule\<close>

text \<open>
  \<^verbatim>\<open>
  parseRule(rule) {
      const hasArgument = rule.includes(':')
      return {
          method: hasArgument ? rule.split(':')[0] : rule,
          arguments: hasArgument ? rule.split(':')[1].split(',') : [],
      }
  }
  \<close>
\<close>

record rule =
  rmethod :: string
  rarguments :: "string list"

definition parseRule :: "string \<Rightarrow> rule" where
  "parseRule r =
     (let hasArgument = includes_char r CHR '':'' in
      \<lparr> rmethod = (if hasArgument then hd (split_on CHR '':'' r) else r),
        rarguments = (if hasArgument then split_on CHR '','' (split_on CHR '':'' r ! 1) else []) \<rparr>)"

text \<open>
  The pipeline of a field in the rule map: a string \<^verbatim>\<open>"a|b:c,d"\<close>, an array of rule
  strings, or nothing (\<^verbatim>\<open>Io.getRules\<close> yields \<^verbatim>\<open>undefined\<close> for a path without rules,
  and \<^verbatim>\<open>_.map(undefined, ...)\<close> is the empty array).
\<close>

datatype rules = RuleString string | RuleList "string list" | NoRules

fun parseRules :: "rules \<Rightarrow> rule list" where
  "parseRules (RuleString s) = map parseRule (split_on CHR ''|'' s)"
| "parseRules (RuleList rs) = map parseRule rs"
| "parseRules NoRules = []"

subsection \<open>The members a rule name can reach\<close>

text \<open>
  \<^verbatim>\<open>this[ruleMethodName]\<close> is a function for the fourteen rule predicates, for the other
  methods of the class and for the methods every object inherits; any other name is an
  unknown rule.
\<close>

datatype member =
    MNullable | MDate | MTime | MArray | MObject | MUrl | MBoolean | MAccepted
  | MInteger | MRequired | MRequiredWith | MString | MEmail | MMin
  | MLocalize | MValidate | MParseRules | MParseRule | MConstructor | MInherited

definition member_of :: "string \<Rightarrow> member option" where
  "member_of name = map_of
     [(''nullable'', MNullable), (''date'', MDate), (''time'', MTime), (''array'', MArray),
      (''object'', MObject), (''url'', MUrl), (''boolean'', MBoolean),
      (''accepted'', MAccepted), (''integer'', MInteger), (''required'', MRequired),
      (''requiredWith'', MRequiredWith), (''string'', MString), (''email'', MEmail),
      (''min'', MMin),
      (''localize'', MLocalize), (''validate'', MValidate), (''parseRules'', MParseRules),
      (''parseRule'', MParseRule), (''constructor'', MConstructor),
      (''hasOwnProperty'', MInherited), (''isPrototypeOf'', MInherited),
      (''propertyIsEnumerable'', MInherited), (''toLocaleString'', MInherited),
      (''toString'', MInherited), (''valueOf'', MInherited)] name"

text \<open>
  \<^verbatim>\<open>parseRule(subject)\<close> called as a rule needs \<^verbatim>\<open>subject.includes\<close>, and
  \<^verbatim>\<open>subject.split\<close> when a colon is found: a string, or an array without the item
  \<^verbatim>\<open>":"\<close>.
\<close>

definition parse_rule_accepts :: "jsval \<Rightarrow> bool" where
  "parse_rule_accepts v =
     (case v of JStr s \<Rightarrow> True | JArr xs \<Rightarrow> JStr '':'' \<notin> set xs | _ \<Rightarrow> False)"

definition parse_rules_accepts :: "jsval \<Rightarrow> bool" where
  "parse_rules_accepts v =
     (case v of
        JArr xs \<Rightarrow> list_all parse_rule_accepts xs
      | JObj kvs \<Rightarrow> list_all parse_rule_accepts (map snd kvs)
      | _ \<Rightarrow> True)"

text \<open>
  \<^verbatim>\<open>this[ruleMethodName](subject, ...rule.arguments)\<close>. Of the members that are not rule
  predicates: \<^verbatim>\<open>localize\<close> and the inherited methods return a value that is no
  \<^verbatim>\<open>BreakToNextField\<close>; the class constructor cannot be called without \<^verbatim>\<open>new\<close>;
  \<^verbatim>\<open>validate\<close> starts the same validation again, reaches the same rule and so on until the
  stack is exhausted.
\<close>

definition call_member ::
  "env \<Rightarrow> jsval \<Rightarrow> member \<Rightarrow> jsval \<Rightarrow> string list \<Rightarrow> rule_result" where
  "call_member e data m subject args =
     (case m of
        MNullable \<Rightarrow> rule_nullable subject
      | MDate \<Rightarrow> rule_date e subject
      | MTime \<Rightarrow> rule_time e subject
      | MArray \<Rightarrow> rule_array e subject
      | MObject \<Rightarrow> rule_object e subject
      | MUrl \<Rightarrow> rule_url e subject
      | MBoolean \<Rightarrow> rule_boolean e subject
      | MAccepted \<Rightarrow> rule_accepted e subject
      | MInteger \<Rightarrow> rule_integer e subject
      | MRequired \<Rightarrow> rule_required e subject
      | MRequiredWith \<Rightarrow> rule_requiredWith e data subject args
      | MString \<Rightarrow> rule_string e subject
      | MEmail \<Rightarrow> rule_email e subject
      | MMin \<Rightarrow> rule_min e subject args
      | MLocalize \<Rightarrow> Passed
      | MValidate \<Rightarrow> Crashed
      | MParseRules \<Rightarrow> (if parse_rules_accepts subject then Passed else Crashed)
      | MParseRule \<Rightarrow> (if parse_rule_accepts subject then Passed else Crashed)
      | MConstructor \<Rightarrow> Crashed
      | MInherited \<Rightarrow> Passed)"

subsection \<open>The pipeline of one field\<close>

text \<open>
  \<^verbatim>\<open>
  for (let rule of this.parseRules(this._rules[field])) {
      let ruleMethodName = _.camelCase(rule.method)
      if (typeof rule.method == 'string' && typeof this[ruleMethodName] !== 'function') {
          throw `${ruleMethodName}() is not a validator method`
      }
      try {
          let result = this[ruleMethodName](subject, ...rule.arguments)
          if (result instanceof BreakToNextField) { break }
      } catch (error) {
          this._bag[field].push(error.replace('{name}', _.lowerCase(field)))
      }
  }
  \<close>
  The loop runs on the messages pushed so far. A runtime error caught by the
  \<^verbatim>\<open>catch\<close> has no \<^verbatim>\<open>replace\<close> method, so the handler raises a TypeError in its turn.
\<close>

fun run_rules ::
  "env \<Rightarrow> jsval \<Rightarrow> string \<Rightarrow> jsval \<Rightarrow> rule list \<Rightarrow> string list \<Rightarrow> thrown + string list" where
  "run_rules e data field subject [] msgs = Inr msgs"
| "run_rules e data field subject (r # rs) msgs =
     (case member_of (camelCase e (rmethod r)) of
        None \<Rightarrow> Inl (ConfigError (camelCase e (rmethod r) @ ''() is not a validator method''))
      | Some m \<Rightarrow>
         (case call_member e data m subject (rarguments r) of
            Passed \<Rightarrow> run_rules e data field subject rs msgs
          | BreakToNextField \<Rightarrow> Inr msgs
          | Failed error \<Rightarrow>
              run_rules e data field subject rs
                (msgs @ [js_replace ''{name}'' (lowerCase e field) error])
          | Crashed \<Rightarrow> Inl RuntimeError))"

text \<open>
  \<^verbatim>\<open>
  const subject = _.get(this._data, field)
  this._bag[field] = []
  for (let rule of ...) { ... }
  \<close>
\<close>

definition run_field ::
  "env \<Rightarrow> jsval \<Rightarrow> string \<Rightarrow> rules \<Rightarrow> (string \<times> message) list
     \<Rightarrow> thrown + (string \<times> message) list" where
  "run_field e data field rs bag =
     (case run_rules e data field (lodash_get data field) (parseRules rs) [] of
        Inl t \<Rightarrow> Inl t
      | Inr msgs \<Rightarrow> Inr (obj_set bag field (Listed msgs)))"

subsection \<open>The expansion of a wildcard\<close>

text \<open>
  \<^verbatim>\<open>
  for (const [index, item] of value.entries()) {
      try {
          const baseName = field.split('.').pop()
          new Validate(item, { [baseName]: this._rules[field] })
      } catch (errors) {
          for (let key in errors) {
              this._bag[field.replace('*', this._overrideIndex || index)] = errors[key]
          }
      }
  }
  \<close>
  The nested validation is the parameter \<open>nested\<close>: what \<^verbatim>\<open>new Validate(item, rules)\<close>
  does. Only the first \<^verbatim>\<open>*\<close> of the field is replaced.
\<close>

definition error_key :: "string \<Rightarrow> nat option \<Rightarrow> nat \<Rightarrow> string" where
  "error_key field overrideIndex index =
     js_replace ''*''
       (show_nat (case overrideIndex of
                    None \<Rightarrow> index
                  | Some n \<Rightarrow> (if n = 0 then index else n)))
       field"

fun catch_nested ::
  "string \<Rightarrow> (string \<times> message) list \<Rightarrow> (string \<times> message) list
     \<Rightarrow> (string \<times> message) list" where
  "catch_nested key [] bag = bag"
| "catch_nested key ((k, v) # errors) bag = catch_nested key errors (obj_set bag key v)"

fun expand_items ::
  "(jsval \<Rightarrow> (string \<times> rules) list \<Rightarrow> thrown + bool) \<Rightarrow> string \<Rightarrow> rules \<Rightarrow> nat option
     \<Rightarrow> (nat \<times> jsval) list \<Rightarrow> (string \<times> message) list \<Rightarrow> (string \<times> message) list" where
  "expand_items nested field rs overrideIndex [] bag = bag"
| "expand_items nested field rs overrideIndex ((index, item) # rest) bag =
     expand_items nested field rs overrideIndex rest
       (case nested item [(last (split_on CHR ''.'' field), rs)] of
          Inr ok \<Rightarrow> bag
        | Inl errors \<Rightarrow>
            catch_nested (error_key field overrideIndex index) (thrown_entries errors) bag)"

text \<open>
  \<^verbatim>\<open>
  for (let node of nodes) {
      if (node == '*') { for (const [index, item] of value.entries()) { ... } }
      else { value = value[node] }
  }
  \<close>
  Only an array has \<^verbatim>\<open>entries\<close>; on any other value the call is a TypeError, as is the
  read \<^verbatim>\<open>value[node]\<close> on \<^verbatim>\<open>null\<close> and \<^verbatim>\<open>undefined\<close>. Neither is inside a
  \<^verbatim>\<open>try\<close>.
\<close>

fun walk_nodes ::
  "(jsval \<Rightarrow> (string \<times> rules) list \<Rightarrow> thrown + bool) \<Rightarrow> string \<Rightarrow> rules \<Rightarrow> nat option
     \<Rightarrow> string list \<Rightarrow> jsval \<Rightarrow> (string \<times> message) list
     \<Rightarrow> thrown + (string \<times> message) list" where
  "walk_nodes nested field rs overrideIndex [] v bag = Inr bag"
| "walk_nodes nested field rs overrideIndex (node # nodes) v bag =
     (if node = ''*'' then
        (case v of
           JArr items \<Rightarrow>
             walk_nodes nested field rs overrideIndex nodes v
               (expand_items nested field rs overrideIndex (indexed 0 items) bag)
         | _ \<Rightarrow> Inl RuntimeError)
      else if nullish v then Inl RuntimeError
      else walk_nodes nested field rs overrideIndex nodes (get_prop v node) bag)"

subsection \<open>validate\<close>

text \<open>
  One turn of \<^verbatim>\<open>for (let field in this._rules)\<close>:
  \<^verbatim>\<open>
  if (field.includes('.')) {
      const nodes = field.split('.')
      let value = this._data[nodes.shift()]
      if (typeof value == 'undefined') continue
      for (let node of nodes) { ... }
  }
  const subject = _.get(this._data, field)
  ...
  \<close>
\<close>

definition validate_field ::
  "(jsval \<Rightarrow> (string \<times> rules) list \<Rightarrow> thrown + bool) \<Rightarrow> env \<Rightarrow> jsval \<Rightarrow> nat option
     \<Rightarrow> string \<times> rules \<Rightarrow> (string \<times> message) list \<Rightarrow> thrown + (string \<times> message) list" where
  "validate_field nested e data overrideIndex entry bag =
     (let field = fst entry; rs = snd entry in
      if includes_char field CHR ''.'' then
        (if nullish data then Inl RuntimeError
         else
           (let nodes = split_on CHR ''.'' field;
                v = get_prop data (hd nodes)
            in if v = JUndefined then Inr bag
               else (case walk_nodes nested field rs overrideIndex (tl nodes) v bag of
                       Inl t \<Rightarrow> Inl t
                     | Inr bag' \<Rightarrow> run_field e data field rs bag')))
      else run_field e data field rs bag)"

fun validate_fields ::
  "(jsval \<Rightarrow> (string \<times> rules) list \<Rightarrow> thrown + bool) \<Rightarrow> env \<Rightarrow> jsval \<Rightarrow> nat option
     \<Rightarrow> (string \<times> rules) list \<Rightarrow> (string \<times> message) list
     \<Rightarrow> thrown + (string \<times> message) list" where
  "validate_fields nested e data overrideIndex [] bag = Inr bag"
| "validate_fields nested e data overrideIndex (entry # entries) bag =
     (case validate_field nested e data overrideIndex entry bag of
        Inl t \<Rightarrow> Inl t
      | Inr bag' \<Rightarrow> validate_fields nested e data overrideIndex entries bag')"

text \<open>
  \<^verbatim>\<open>
  const nonEmptyFields = _.filter(Object.keys(this._bag), field => this._bag[field].length > 0)
  let filledErrors = _.pick(this._bag, nonEmptyFields)
  if (this._customTest) { filledErrors = Object.assign(filledErrors, this._customTest()) }
  if (Object.keys(filledErrors).length > 0) { throw filledErrors }
  return true
  \<close>
  The custom test is given by the object it returns.
\<close>

fun message_length :: "message \<Rightarrow> nat" where
  "message_length (Bare s) = length s"
| "message_length (Listed ms) = length ms"

definition filled_errors ::
  "(string \<times> message) list \<Rightarrow> (string \<times> message) list option \<Rightarrow> thrown + bool" where
  "filled_errors bag customTest =
     (let filledErrors = filter (\<lambda>kv. message_length (snd kv) > 0) bag;
          filledErrors' = (case customTest of
                             None \<Rightarrow> filledErrors
                           | Some custom \<Rightarrow> obj_assign filledErrors custom)
      in if length filledErrors' > 0 then Inl (ErrorMap filledErrors') else Inr True)"

definition validate_with ::
  "(jsval \<Rightarrow> (string \<times> rules) list \<Rightarrow> thrown + bool) \<Rightarrow> env \<Rightarrow> jsval
     \<Rightarrow> (string \<times> rules) list \<Rightarrow> (string \<times> message) list option \<Rightarrow> nat option
     \<Rightarrow> thrown + bool" where
  "validate_with nested e data rs customTest overrideIndex =
     (case validate_fields nested e data overrideIndex rs [] of
        Inl t \<Rightarrow> Inl t
      | Inr bag \<Rightarrow> filled_errors bag customTest)"

text \<open>
  The recursion of \<^verbatim>\<open>Validate\<close> is two levels deep. The nested call
  \<^verbatim>\<open>new Validate(item, { [baseName]: ... })\<close> has one field, the last segment of a
  dotted path, which has no dot; so the nested validation never expands a wildcard
  itself, and its own \<open>nested\<close> parameter is never called (lemma
  \<open>validate_unfold\<close> below: \<open>validate\<close> satisfies the recursive equation of the source).
\<close>

definition validate_item :: "env \<Rightarrow> jsval \<Rightarrow> (string \<times> rules) list \<Rightarrow> thrown + bool" where
  "validate_item e item rs = validate_with (\<lambda>i r. Inl RuntimeError) e item rs None None"

definition validate ::
  "env \<Rightarrow> jsval \<Rightarrow> (string \<times> rules) list \<Rightarrow> (string \<times> message) list option \<Rightarrow> nat option
     \<Rightarrow> thrown + bool" where
  "validate e data rs customTest overrideIndex =
     validate_with (validate_item e) e data rs customTest overrideIndex"

section \<open>Bag (bag.js)\<close>

text \<open>
  A bag holds its messages by path, its label, and its handlers. The handlers are
  closures of the caller; the model keeps the list of the events the bag has emitted
  instead, one entry for each call of \<^verbatim>\<open>emit\<close>.
\<close>

record Bag =
  bag :: "(string \<times> message) list"
  label :: "string option"
  emitted :: "string list"

definition Bag_new :: "(string \<times> message) list \<Rightarrow> string option \<Rightarrow> Bag" where
  "Bag_new messages l = \<lparr> bag = messages, label = l, emitted = [] \<rparr>"

definition Bag_emit :: "Bag \<Rightarrow> string \<Rightarrow> Bag" where
  "Bag_emit B event = B\<lparr> emitted := emitted B @ [event] \<rparr>"

definition Bag_has :: "Bag \<Rightarrow> string \<Rightarrow> bool" where
  "Bag_has B field = (field \<in> set (map fst (bag B)))"

text \<open>
  \<^verbatim>\<open>
  get(field, index = null) {
      let key = field
      if (index !== null) { key = key.replace('*', index) }
      if (this.bag[key]) {
          return this.label && ! this.bag[key][0].includes(':')
              ? `${this.label}: ${this.bag[key][0]}`
              : this.bag[key][0]
      }
  }
  \<close>
  The result \<open>None\<close> is \<^verbatim>\<open>undefined\<close>. Of an empty list the first message is
  \<^verbatim>\<open>undefined\<close>, and \<^verbatim>\<open>undefined.includes\<close> is a TypeError.
\<close>

definition bag_key :: "string \<Rightarrow> nat option \<Rightarrow> string" where
  "bag_key field index =
     (case index of None \<Rightarrow> field | Some i \<Rightarrow> js_replace ''*'' (show_nat i) field)"

fun message_truthy :: "message \<Rightarrow> bool" where
  "message_truthy (Bare s) = (s \<noteq> [])"
| "message_truthy (Listed ms) = True"

fun first_message :: "message \<Rightarrow> string option" where
  "first_message (Bare []) = None"
| "first_message (Bare (c # s)) = Some [c]"
| "first_message (Listed []) = None"
| "first_message (Listed (m # ms)) = Some m"

definition label_truthy :: "string option \<Rightarrow> bool" where
  "label_truthy l = (case l of None \<Rightarrow> False | Some s \<Rightarrow> s \<noteq> [])"

definition Bag_get :: "Bag \<Rightarrow> string \<Rightarrow> nat option \<Rightarrow> thrown + string option" where
  "Bag_get B field index =
     (case map_of (bag B) (bag_key field index) of
        None \<Rightarrow> Inr None
      | Some m \<Rightarrow>
          (if message_truthy m then
             (if label_truthy (label B) then
                (case first_message m of
                   None \<Rightarrow> Inl RuntimeError
                 | Some first \<Rightarrow>
                     (if \<not> includes_char first CHR '':''
                      then Inr (Some (the (label B) @ '': '' @ first))
                      else Inr (Some first)))
              else Inr (first_message m))
           else Inr None))"

text \<open>
  \<^verbatim>\<open>
  record(messages) {
      this.bag = Object.assign(this.bag, _.mapValues(messages, message => {
          return Array.isArray(message) ? message : [message]
      }))
      this.emit('update')
  }
  \<close>
\<close>

fun coerce :: "message \<Rightarrow> message" where
  "coerce (Bare s) = Listed [s]"
| "coerce (Listed ms) = Listed ms"

definition Bag_record :: "Bag \<Rightarrow> (string \<times> message) list \<Rightarrow> Bag" where
  "Bag_record B messages =
     Bag_emit (B\<lparr> bag := obj_assign (bag B) (map (\<lambda>km. (fst km, coerce (snd km))) messages) \<rparr>)
       ''update''"

definition Bag_replace :: "Bag \<Rightarrow> (string \<times> message) list \<Rightarrow> Bag" where
  "Bag_replace B messages = Bag_emit (B\<lparr> bag := messages \<rparr>) ''update''"

text \<open>
  \<^verbatim>\<open>
  clear(field) {
      if (field) { delete this.bag[field]; return }
      this.bag = {}
      this.emit('update')
  }
  \<close>
  The argument \<open>None\<close> is a call without a field (or with \<^verbatim>\<open>null\<close>). The empty string
  is falsy as well.
\<close>

definition Bag_clear :: "Bag \<Rightarrow> string option \<Rightarrow> Bag" where
  "Bag_clear B field =
     (if (case field of None \<Rightarrow> False | Some f \<Rightarrow> f \<noteq> [])
      then B\<lparr> bag := obj_delete (bag B) (the field) \<rparr>
      else Bag_emit (B\<lparr> bag := [] \<rparr>) ''update'')"

section \<open>Io (io.js)\<close>

text \<open>
  The state of an \<^verbatim>\<open>Io\<close>: the form tree, the rule map, the two bags, the feedback, the
  paths of the watchers, the debounce entries (path and timer handle). The handlers of
  \<^verbatim>\<open>on\<close> are closures of the caller; the model keeps the events emitted, each with the
  time of its emission. The timers of the runtime are part of the state: the clock, the
  pending timers (handle, due time and the path its callback was created for) and the
  next free handle.

  A method that throws leaves the object as it is at the throw: the result \<open>Inl\<close> of
  an operation on an \<^verbatim>\<open>Io\<close> holds what was thrown and that state.
\<close>

datatype event =
    Change string string jsval jsval thrown
  | Paused string string jsval "string option" "string option"

record Io =
  form :: jsval
  validation :: "(string \<times> rules) list"
  errors :: Bag
  success :: Bag
  feedback :: "(string \<times> string option \<times> string option) list"
  watchers :: "string list"
  inputTimeouts :: "(string \<times> nat) list"
  events :: "(nat \<times> event) list"
  clock :: nat
  timers :: "(nat \<times> nat \<times> string) list"
  next_handle :: nat

definition Io_emit :: "Io \<Rightarrow> event \<Rightarrow> Io" where
  "Io_emit io ev = io\<lparr> events := events io @ [(clock io, ev)] \<rparr>"

subsection \<open>createFeedback\<close>

text \<open>
  \<^verbatim>\<open>
  for (let key in this.validation) {
      if (/\*+/g.test(key)) {
          let segments = key.split('.')
          let node = this.form
          for (let segment of segments) {
              if (segment !== '*') { node = node[segment] }
              else {
                  for (const [index, item] of node.entries()) {
                      _.set(feedback, key.replace('*', index), {
                          error: this.errors.get(key, index),
                          success: this.success.get(key, index),
                      })
                  }
              }
          }
      } else {
          _.set(feedback, key, { error: this.errors.get(key), success: this.success.get(key) })
      }
  }
  this.feedback = feedback
  \<close>
  The feedback is kept as the sequence of the calls of lodash's \<^verbatim>\<open>_.set\<close>: the path
  and the leaf \<^verbatim>\<open>{error, success}\<close> of each.
\<close>

definition feedback_key :: "string \<Rightarrow> nat \<Rightarrow> string" where
  "feedback_key key index = js_replace ''*'' (show_nat index) key"

definition feedback_leaf ::
  "Io \<Rightarrow> string \<Rightarrow> nat option \<Rightarrow> thrown + string option \<times> string option" where
  "feedback_leaf io key index =
     (case Bag_get (errors io) key index of
        Inl t \<Rightarrow> Inl t
      | Inr err \<Rightarrow>
          (case Bag_get (success io) key index of
             Inl t \<Rightarrow> Inl t
           | Inr suc \<Rightarrow> Inr (err, suc)))"

fun feedback_items ::
  "Io \<Rightarrow> string \<Rightarrow> (nat \<times> jsval) list \<Rightarrow> (string \<times> string option \<times> string option) list
     \<Rightarrow> thrown + (string \<times> string option \<times> string option) list" where
  "feedback_items io key [] sets = Inr sets"
| "feedback_items io key ((index, item) # rest) sets =
     (case feedback_leaf io key (Some index) of
        Inl t \<Rightarrow> Inl t
      | Inr leaf \<Rightarrow> feedback_items io key rest (sets @ [(feedback_key key index, leaf)]))"

fun feedback_segments ::
  "Io \<Rightarrow> string \<Rightarrow> string list \<Rightarrow> jsval \<Rightarrow> (string \<times> string option \<times> string option) list
     \<Rightarrow> thrown + (string \<times> string option \<times> string option) list" where
  "feedback_segments io key [] node sets = Inr sets"
| "feedback_segments io key (segment # segments) node sets =
     (if segment \<noteq> ''*'' then
        (if nullish node then Inl RuntimeError
         else feedback_segments io key segments (get_prop node segment) sets)
      else
        (case node of
           JArr items \<Rightarrow>
             (case feedback_items io key (indexed 0 items) sets of
                Inl t \<Rightarrow> Inl t
              | Inr sets' \<Rightarrow> feedback_segments io key segments node sets')
         | _ \<Rightarrow> Inl RuntimeError))"

fun feedback_keys ::
  "Io \<Rightarrow> string list \<Rightarrow> (string \<times> string option \<times> string option) list
     \<Rightarrow> thrown + (string \<times> string option \<times> string option) list" where
  "feedback_keys io [] sets = Inr sets"
| "feedback_keys io (key # keys) sets =
     (case (if includes_char key CHR ''*''
            then feedback_segments io key (split_on CHR ''.'' key) (form io) sets
            else (case feedback_leaf io key None of
                    Inl t \<Rightarrow> Inl t
                  | Inr leaf \<Rightarrow> Inr (sets @ [(key, leaf)]))) of
        Inl t \<Rightarrow> Inl t
      | Inr sets' \<Rightarrow> feedback_keys io keys sets')"

text \<open>
  The new feedback is built in a local variable and assigned at the end: an exception
  leaves \<^verbatim>\<open>this.feedback\<close>, and all the rest, as it was.
\<close>

definition createFeedback :: "Io \<Rightarrow> thrown \<times> Io + Io" where
  "createFeedback io =
     (case feedback_keys io (map fst (validation io)) [] of
        Inl t \<Rightarrow> Inl (t, io)
      | Inr sets \<Rightarrow> Inr (io\<lparr> feedback := sets \<rparr>))"

text \<open>
  The constructor registers \<^verbatim>\<open>createFeedback\<close> as the handler of \<^verbatim>\<open>update\<close> on both
  bags: an operation on the error bag that emits rebuilds the feedback. The bag has
  changed when the handler runs, and stays changed when the handler throws.
\<close>

definition on_errors :: "Io \<Rightarrow> (Bag \<Rightarrow> Bag) \<Rightarrow> thrown \<times> Io + Io" where
  "on_errors io f =
     (if length (emitted (f (errors io))) > length (emitted (errors io))
      then createFeedback (io\<lparr> errors := f (errors io) \<rparr>)
      else Inr (io\<lparr> errors := f (errors io) \<rparr>))"

subsection \<open>startWatching and stopWatching\<close>

fun isObject :: "jsval \<Rightarrow> bool" where
  "isObject (JObj kvs) = True"
| "isObject v = False"

fun isArrayOfObjects :: "jsval \<Rightarrow> bool" where
  "isArrayOfObjects (JArr xs) = (xs \<noteq> [] \<and> isObject (hd xs))"
| "isArrayOfObjects v = False"

fun isSimpleType :: "jsval \<Rightarrow> bool" where
  "isSimpleType (JArr xs) = False"
| "isSimpleType (JObj kvs) = False"
| "isSimpleType v = True"

fun array_items :: "jsval \<Rightarrow> jsval list" where
  "array_items (JArr xs) = xs"
| "array_items v = []"

definition stopWatching :: "Io \<Rightarrow> Io" where
  "stopWatching io = io\<lparr> watchers := [] \<rparr>"

text \<open>
  \<^verbatim>\<open>
  startWatching(object, path = []) {
      for (const [field, value] of Object.entries(object)) {
          path.push(field)
          if (this.isObject(value)) {
              this.startWatching(object[field], path.slice(0))
              path.pop()
          }
          if (this.isArrayOfObjects(value)) {
              for (let [index, item] of value.entries()) {
                  this.startWatching(item, [...path, index])
              }
              path.pop()
          }
          let joinedPath = path.join('.')
          if (! _.find(this._watchers, ['path', joinedPath])) {
              this._watchers.push({ path: joinedPath, unwatch: this._vue.$watch(...) })
          }
          path.pop()
      }
  }
  \<close>
  The function takes the watchers registered so far and returns them with the new ones.
  Every recursive call gets a copy of the path; inside one call the loop works on one
  array, which each turn hands to the next. \<^verbatim>\<open>path.pop()\<close> on an empty array does
  nothing. \<^verbatim>\<open>Object.entries\<close> of \<^verbatim>\<open>null\<close> or \<^verbatim>\<open>undefined\<close> is a TypeError; the
  watchers registered before it stay registered.
\<close>

definition add_watcher :: "string \<Rightarrow> string list \<Rightarrow> string list" where
  "add_watcher joinedPath ws = (if joinedPath \<in> set ws then ws else ws @ [joinedPath])"

fun entry_weight :: "jsval \<Rightarrow> nat" and weight :: "jsval \<Rightarrow> nat" where
  "weight (JObj kvs) = Suc (sum_list (map (\<lambda>kv. Suc (weight (snd kv))) kvs))"
| "weight (JArr xs) = Suc (sum_list (map (\<lambda>x. Suc (weight x)) xs))"
| "weight (JStr s) = Suc (length s)"
| "weight JUndefined = 1"
| "weight JNull = 1"
| "weight (JBool b) = 1"
| "weight (JNum n) = 1"
| "entry_weight (JObj kvs) = Suc (weight (JObj kvs))"
| "entry_weight (JArr xs) = Suc (weight (JArr xs))"
| "entry_weight v = 1"

function startWatching ::
    "jsval \<Rightarrow> string list \<Rightarrow> string list \<Rightarrow> thrown \<times> string list + string list"
  and watch_entries ::
    "(string \<times> jsval) list \<Rightarrow> string list \<Rightarrow> string list
       \<Rightarrow> thrown \<times> string list + string list"
  and watch_items ::
    "(nat \<times> jsval) list \<Rightarrow> string list \<Rightarrow> string list
       \<Rightarrow> thrown \<times> string list + string list"
where
  "startWatching object path ws =
     (case object_entries object of
        None \<Rightarrow> Inl (RuntimeError, ws)
      | Some entries \<Rightarrow> watch_entries entries path ws)"
| "watch_entries [] path ws = Inr ws"
| "watch_entries ((field, v) # rest) path ws =
     (case (if isObject v
            then (case startWatching v (path @ [field]) ws of
                    Inl t \<Rightarrow> Inl t
                  | Inr ws1 \<Rightarrow> Inr (butlast (path @ [field]), ws1))
            else Inr (path @ [field], ws)) of
        Inl t \<Rightarrow> Inl t
      | Inr (path1, ws1) \<Rightarrow>
          (case (if isArrayOfObjects v
                 then (case watch_items (indexed 0 (array_items v)) path1 ws1 of
                         Inl t \<Rightarrow> Inl t
                       | Inr ws2 \<Rightarrow> Inr (butlast path1, ws2))
                 else Inr (path1, ws1)) of
             Inl t \<Rightarrow> Inl t
           | Inr (path2, ws2) \<Rightarrow>
               watch_entries rest (butlast path2) (add_watcher (join_with ''.'' path2) ws2)))"
| "watch_items [] path ws = Inr ws"
| "watch_items ((index, item) # rest) path ws =
     (case startWatching item (path @ [show_nat index]) ws of
        Inl t \<Rightarrow> Inl t
      | Inr ws1 \<Rightarrow> watch_items rest path ws1)"
  by pat_completeness auto

text \<open>
  Termination: every recursive call is on a smaller tree. An entry of the loop weighs
  more than its value when the loop can descend into it (a keyed map or an array), and
  one otherwise (the characters of a string are entries, but never descended into).
\<close>

lemma map_snd_indexed: "map snd (indexed i xs) = xs"
  by (induction xs arbitrary: i) auto

lemma entry_weight_le: "entry_weight v \<le> Suc (weight v)"
  by (cases v) auto

lemma entry_weight_pos: "0 < entry_weight v"
  by (cases v) auto

lemma sum_entry_weight_le:
  "sum_list (map (\<lambda>x. entry_weight (f x)) xs) \<le> sum_list (map (\<lambda>x. Suc (weight (f x))) xs)"
proof (induction xs)
  case Nil
  then show ?case by simp
next
  case (Cons a xs)
  then show ?case using entry_weight_le [of "f a"] by simp
qed

lemma entries_weight:
  "object_entries object = Some entries \<Longrightarrow>
     sum_list (map (\<lambda>e. entry_weight (snd e)) entries) < weight object"
proof (cases object)
  case (JObj kvs)
  assume "object_entries object = Some entries"
  with JObj have "entries = kvs" by simp
  with JObj show ?thesis
    using sum_entry_weight_le [of snd kvs] by simp
next
  case (JArr xs)
  assume "object_entries object = Some entries"
  with JArr have e: "map snd entries = xs"
    by (auto simp: map_snd_indexed comp_def case_prod_unfold)
  have "sum_list (map (\<lambda>e. entry_weight (snd e)) entries) =
      sum_list (map (\<lambda>x. entry_weight x) (map snd entries))"
    by (simp add: comp_def)
  also have "\<dots> \<le> sum_list (map (\<lambda>x. Suc (weight x)) xs)"
    unfolding e using sum_entry_weight_le [of "\<lambda>x. x" xs] by simp
  finally show ?thesis using JArr by simp
next
  case (JStr s)
  assume "object_entries object = Some entries"
  with JStr have e: "entries = map (\<lambda>(i, c). (show_nat i, JStr [c])) (indexed 0 s)" by simp
  have "sum_list (map (\<lambda>e. entry_weight (snd e))
      (map (\<lambda>(i, c). (show_nat i, JStr [c])) (indexed k s))) = length s" for k
    by (induction s arbitrary: k) auto
  with e JStr show ?thesis by simp
qed auto

lemma items_weight:
  "isArrayOfObjects v \<Longrightarrow>
     sum_list (map (\<lambda>e. Suc (weight (snd e))) (indexed 0 (array_items v))) < entry_weight v"
proof (cases v)
  case (JArr xs)
  have "sum_list (map (\<lambda>e. Suc (weight (snd e))) (indexed k xs)) =
      sum_list (map (\<lambda>x. Suc (weight x)) xs)" for k
    by (induction xs arbitrary: k) auto
  with JArr show ?thesis by simp
qed auto

definition watch_measure ::
  "(jsval \<times> string list \<times> string list) + ((string \<times> jsval) list \<times> string list \<times> string list)
     + ((nat \<times> jsval) list \<times> string list \<times> string list) \<Rightarrow> nat" where
  "watch_measure x =
     (case x of
        Inl (object, p, w) \<Rightarrow> weight object
      | Inr (Inl (entries, p, w)) \<Rightarrow> sum_list (map (\<lambda>e. entry_weight (snd e)) entries)
      | Inr (Inr (items, p, w)) \<Rightarrow> sum_list (map (\<lambda>e. Suc (weight (snd e))) items))"

termination startWatching
proof (relation "measure watch_measure")
  show "wf (measure watch_measure)" by simp
next
  fix object :: jsval and path ws :: "string list" and entries
  assume "object_entries object = Some entries"
  then show "(Inr (Inl (entries, path, ws)), Inl (object, path, ws)) \<in> measure watch_measure"
    by (simp add: watch_measure_def entries_weight)
next
  fix field v rest and path ws :: "string list"
  assume "isObject v"
  then show "(Inl (v, path @ [field], ws), Inr (Inl ((field, v) # rest, path, ws)))
      \<in> measure watch_measure"
    by (cases v) (simp_all add: watch_measure_def)
next
  fix field v rest and path ws path1 ws1 :: "string list"
  assume "isArrayOfObjects v"
  then show "(Inr (Inr (indexed 0 (array_items v), path1, ws1)),
      Inr (Inl ((field, v) # rest, path, ws))) \<in> measure watch_measure"
    using items_weight [of v] by (simp add: watch_measure_def)
next
  fix field v rest and path ws path2 ws2 :: "string list"
  show "(Inr (Inl (rest, butlast path2, add_watcher (join_with ''.'' path2) ws2)),
      Inr (Inl ((field, v) # rest, path, ws))) \<in> measure watch_measure"
    by (simp add: watch_measure_def entry_weight_pos)
next
  fix index :: nat and item rest and path ws :: "string list"
  show "(Inl (item, path @ [show_nat index], ws), Inr (Inr ((index, item) # rest, path, ws)))
      \<in> measure watch_measure"
    by (simp add: watch_measure_def)
next
  fix index :: nat and item rest and path ws ws1 :: "string list"
  show "(Inr (Inr (rest, path, ws1)), Inr (Inr ((index, item) # rest, path, ws)))
      \<in> measure watch_measure"
    by (simp add: watch_measure_def)
qed

subsection \<open>The debounce timers\<close>

text \<open>
  \<^verbatim>\<open>
  resetInputTimeout(path) {
      let timeout = _.find(this._inputTimeouts, ['path', path])
      if (timeout) {
          clearTimeout(timeout.handle)
          this._inputTimeouts.splice(_.findIndex(this._inputTimeouts, ['path', path]), 1)
      }
      this._inputTimeouts.push({
          path,
          handle: setTimeout(() => { this.emit('paused', {...}); this.emit(`paused:${path}`, {...}) }, 2000)
      })
      return this
  }
  \<close>
  \<^verbatim>\<open>setTimeout(f, 2000)\<close> returns a fresh handle and makes the timer pending, due 2000
  time units from now; \<^verbatim>\<open>clearTimeout(h)\<close> removes the pending timer \<^verbatim>\<open>h\<close>, if any.
\<close>

definition setTimeout :: "Io \<Rightarrow> nat \<Rightarrow> string \<Rightarrow> Io \<times> nat" where
  "setTimeout io delay path =
     (io\<lparr> timers := timers io @ [(next_handle io, clock io + delay, path)],
          next_handle := Suc (next_handle io) \<rparr>,
      next_handle io)"

definition clearTimeout :: "Io \<Rightarrow> nat \<Rightarrow> Io" where
  "clearTimeout io handle = io\<lparr> timers := filter (\<lambda>t. fst t \<noteq> handle) (timers io) \<rparr>"

fun remove_first :: "('a \<Rightarrow> bool) \<Rightarrow> 'a list \<Rightarrow> 'a list" where
  "remove_first P [] = []"
| "remove_first P (x # xs) = (if P x then xs else x # remove_first P xs)"

definition resetInputTimeout :: "Io \<Rightarrow> string \<Rightarrow> Io" where
  "resetInputTimeout io path =
     (let io1 =
        (case find (\<lambda>t. fst t = path) (inputTimeouts io) of
           Some timeout \<Rightarrow>
             (clearTimeout io (snd timeout))
               \<lparr> inputTimeouts := remove_first (\<lambda>t. fst t = path) (inputTimeouts io) \<rparr>
         | None \<Rightarrow> io);
          armed = setTimeout io1 2000 path
      in (fst armed)\<lparr> inputTimeouts := inputTimeouts (fst armed) @ [(path, snd armed)] \<rparr>)"

text \<open>
  The callback of a timer, for the path it was created with: both payloads are built
  when the callback runs.
  \<^verbatim>\<open>
  this.emit('paused', { path, value: _.get(this.form, path),
      error: this.errors.get(path), success: this.success.get(path) })
  this.emit(`paused:${path}`, { ...the same expressions... })
  \<close>
\<close>

definition paused_payload :: "Io \<Rightarrow> string \<Rightarrow> string \<Rightarrow> thrown + event" where
  "paused_payload io name path =
     (case Bag_get (errors io) path None of
        Inl t \<Rightarrow> Inl t
      | Inr err \<Rightarrow>
          (case Bag_get (success io) path None of
             Inl t \<Rightarrow> Inl t
           | Inr suc \<Rightarrow> Inr (Paused name path (lodash_get (form io) path) err suc)))"

definition timeout_callback :: "Io \<Rightarrow> string \<Rightarrow> thrown \<times> Io + Io" where
  "timeout_callback io path =
     (case paused_payload io ''paused'' path of
        Inl t \<Rightarrow> Inl (t, io)
      | Inr ev1 \<Rightarrow>
          (case paused_payload (Io_emit io ev1) (''paused:'' @ path) path of
             Inl t \<Rightarrow> Inl (t, Io_emit io ev1)
           | Inr ev2 \<Rightarrow> Inr (Io_emit (Io_emit io ev1) ev2)))"

subsection \<open>validate, onChange and the callback of a watcher\<close>

text \<open>
  \<^verbatim>\<open>
  getRules(path) {
      if (path.includes('.')) { path = this.toWildcardPath(path) }
      return this.validation[path]
  }
  \<close>
\<close>

definition getRules :: "Io \<Rightarrow> string \<Rightarrow> rules" where
  "getRules io path =
     (case map_of (validation io)
             (if includes_char path CHR ''.'' then toWildcardPath path else path) of
        None \<Rightarrow> NoRules
      | Some rs \<Rightarrow> rs)"

text \<open>
  \<^verbatim>\<open>
  validate({ path }) {
      let rules = this.getRules(path)
      try {
          new Validate(this.form, { [this.toWildcardPath(path)]: rules })
          this.errors.clear(path)
      } catch (errors) {
          this.errors.record(errors)
          return errors
      }
      return {}
  }
  \<close>
  The result is the new state and the value returned. \<open>Inl\<close> is an exception that
  leaves the method: the one raised by the feedback handler of the bag inside the
  \<^verbatim>\<open>catch\<close> clause. What the \<^verbatim>\<open>try\<close> block throws, be it the validator or the
  handler that \<^verbatim>\<open>clear\<close> calls when it resets the bag, goes to the \<^verbatim>\<open>catch\<close> clause.
\<close>

definition Io_validate :: "env \<Rightarrow> Io \<Rightarrow> string \<Rightarrow> thrown \<times> Io + Io \<times> thrown" where
  "Io_validate e io path =
     (case (case validate e (form io) [(toWildcardPath path, getRules io path)] None None of
              Inl errs \<Rightarrow> Inl (errs, io)
            | Inr ok \<Rightarrow> on_errors io (\<lambda>B. Bag_clear B (Some path))) of
        Inr io' \<Rightarrow> Inr (io', ErrorMap [])
      | Inl (errs, io1) \<Rightarrow>
          (case on_errors io1 (\<lambda>B. Bag_record B (thrown_entries errs)) of
             Inl t \<Rightarrow> Inl t
           | Inr io' \<Rightarrow> Inr (io', errs)))"

text \<open>
  \<^verbatim>\<open>
  onChange(payload) {
      const errors = this.validate(payload)
      this.resetInputTimeout(payload.path)
      this.createFeedback()
      this.emit('change', Object.assign(payload, { errors }))
  }
  \<close>
\<close>

definition onChange ::
  "env \<Rightarrow> Io \<Rightarrow> string \<Rightarrow> string \<Rightarrow> jsval \<Rightarrow> jsval \<Rightarrow> thrown \<times> Io + Io" where
  "onChange e io field path v oldValue =
     (case Io_validate e io path of
        Inl t \<Rightarrow> Inl t
      | Inr (io1, errs) \<Rightarrow>
          (case createFeedback (resetInputTimeout io1 path) of
             Inl t \<Rightarrow> Inl t
           | Inr io2 \<Rightarrow> Inr (Io_emit io2 (Change field path v oldValue errs))))"

text \<open>
  The callback given to \<^verbatim>\<open>$watch\<close> for the watcher of \<^verbatim>\<open>joinedPath\<close>, called by the
  reactive substrate with the new and the old value once the tree has changed:
  \<^verbatim>\<open>
  (value, oldValue) => {
      if (! _.isEqual(value, oldValue)) { this.onChange({ field, path: joinedPath, value, oldValue }) }
      this.stopWatching()
      this.startWatching(this.form)
  }
  \<close>
\<close>

definition rewatch :: "Io \<Rightarrow> thrown \<times> Io + Io" where
  "rewatch io =
     (case startWatching (form io) [] (watchers (stopWatching io)) of
        Inl (t, ws) \<Rightarrow> Inl (t, io\<lparr> watchers := ws \<rparr>)
      | Inr ws \<Rightarrow> Inr (io\<lparr> watchers := ws \<rparr>))"

definition watcher_callback ::
  "env \<Rightarrow> Io \<Rightarrow> string \<Rightarrow> string \<Rightarrow> jsval \<Rightarrow> jsval \<Rightarrow> thrown \<times> Io + Io" where
  "watcher_callback e io field joinedPath v oldValue =
     (case (if v \<noteq> oldValue then onChange e io field joinedPath v oldValue else Inr io) of
        Inl t \<Rightarrow> Inl t
      | Inr io1 \<Rightarrow> rewatch io1)"

subsection \<open>The constructor and update\<close>

text \<open>
  \<^verbatim>\<open>
  this.errors = new Bag(this.errors || {}, 'Error')
  this.success = new Bag(this.success || {}, 'Success')
  this.form = Vue.observable(this.form)
  this.feedback = {}
  this.startWatching(this.form)
  this.createFeedback()
  \<close>
  When the constructor throws, \<open>Inl\<close> holds the object as far as it was built.
\<close>

definition Io_new ::
  "jsval \<Rightarrow> (string \<times> rules) list \<Rightarrow> (string \<times> message) list \<Rightarrow> (string \<times> message) list
     \<Rightarrow> thrown \<times> Io + Io" where
  "Io_new f rs errs succ =
     (case startWatching f [] [] of
        Inl (t, ws) \<Rightarrow>
          Inl (t,
            \<lparr> form = f, validation = rs,
              errors = Bag_new errs (Some ''Error''), success = Bag_new succ (Some ''Success''),
              feedback = [], watchers = ws, inputTimeouts = [], events = [],
              clock = 0, timers = [], next_handle = 0 \<rparr>)
      | Inr ws \<Rightarrow>
          createFeedback
            \<lparr> form = f, validation = rs,
              errors = Bag_new errs (Some ''Error''), success = Bag_new succ (Some ''Success''),
              feedback = [], watchers = ws, inputTimeouts = [], events = [],
              clock = 0, timers = [], next_handle = 0 \<rparr>)"

text \<open>
  \<^verbatim>\<open>
  update(data = {}) {
      for (let key in data) { this.form[key] = data[key] }
      this.stopWatching()
      this.startWatching(this.form)
      this.createFeedback()
      return this
  }
  \<close>
  The data is an object, given by its entries. The form is a keyed map: the root of the
  tree is one, from the constructor on. An assignment to a property of anything else is
  outside the model (\<open>Inl\<close>, nothing changed).
\<close>

definition update :: "Io \<Rightarrow> (string \<times> jsval) list \<Rightarrow> thrown \<times> Io + Io" where
  "update io data =
     (case form io of
        JObj kvs \<Rightarrow>
          (case rewatch (io\<lparr> form := JObj (obj_assign kvs data) \<rparr>) of
             Inl t \<Rightarrow> Inl t
           | Inr io1 \<Rightarrow> createFeedback io1)
      | _ \<Rightarrow> Inl (RuntimeError, io))"

section \<open>An environment for the examples\<close>

text \<open>
  The examples below are evaluated in this environment: a translation is missing and
  \<^verbatim>\<open>$t\<close> returns its key back, the rule names are single lower-case words, which
  \<^verbatim>\<open>_.camelCase\<close> leaves as they are, the only URL that parses is
  \<^verbatim>\<open>https://example.com\<close>. The messages have no \<^verbatim>\<open>{name}\<close> placeholder, so the
  result of \<^verbatim>\<open>_.lowerCase\<close> is never seen.
\<close>

definition example_env :: env where
  "example_env =
     \<lparr> translate = (\<lambda>key. key),
       camelCase = (\<lambda>name. name),
       lowerCase = (\<lambda>field. field),
       moment_valid = (\<lambda>v. False),
       url_parses = (\<lambda>s. s = ''https://example.com''),
       isEmail = (\<lambda>s. False),
       string_to_number = (\<lambda>s. None),
       truthy = js_truthy \<rparr>"

section \<open>Notions used to state the properties\<close>


text \<open>
  The entry of the feedback for a concrete path: the path and the leaf
  \<^verbatim>\<open>{error: this.errors.get(path), success: this.success.get(path)}\<close>, where both calls
  return.
\<close>

definition feedback_entry :: "Io \<Rightarrow> string \<Rightarrow> string \<times> string option \<times> string option" where
  "feedback_entry io path =
     (path, projr (Bag_get (errors io) path None), projr (Bag_get (success io) path None))"

text \<open>Sequencing of operations that may throw.\<close>

definition and_then :: "'e + 'a \<Rightarrow> ('a \<Rightarrow> 'e + 'b) \<Rightarrow> 'e + 'b" where
  "and_then r f = (case r of Inl t \<Rightarrow> Inl t | Inr x \<Rightarrow> f x)"

text \<open>
  The scenario of the specification: the tree \<^verbatim>\<open>{services: [{url: null}]}\<close> with the rule
  map \<^verbatim>\<open>{"services.*.url": "required|url"}\<close>. A change assigns
  \<^verbatim>\<open>services[0].url\<close>, after which the reactive substrate calls the callback of the
  watcher of \<^verbatim>\<open>services.0.url\<close> with the new and the old value.
\<close>

definition scenario_form :: "jsval \<Rightarrow> jsval" where
  "scenario_form url = JObj [(''services'', JArr [JObj [(''url'', url)]])]"

definition scenario_start :: "thrown \<times> Io + Io" where
  "scenario_start =
     Io_new (scenario_form JNull) [(''services.*.url'', RuleString ''required|url'')] [] []"

definition scenario_change :: "jsval \<Rightarrow> jsval \<Rightarrow> Io \<Rightarrow> thrown \<times> Io + Io" where
  "scenario_change v oldValue io =
     watcher_callback example_env (io\<lparr> form := scenario_form v \<rparr>)
       ''url'' ''services.0.url'' v oldValue"

text \<open>
  An \<^verbatim>\<open>Io\<close> whose rule key has two wildcards: the tree \<^verbatim>\<open>{a: [{}, {}]}\<close> with the rule
  map \<^verbatim>\<open>{"a.*.*": "required"}\<close> and, given to the constructor, the message \<^verbatim>\<open>bad\<close>
  under \<^verbatim>\<open>a.1.*\<close> in the error bag.
\<close>

definition wildcard_start :: "thrown \<times> Io + Io" where
  "wildcard_start =
     Io_new (JObj [(''a'', JArr [JObj [], JObj []])]) [(''a.*.*'', RuleString ''required'')]
       [(''a.1.*'', Listed [''bad''])] []"

text \<open>
  The entries that one rule key adds to the feedback: its own entry when it has no
  \<^verbatim>\<open>*\<close>, and otherwise entries whose paths are the key with its first \<^verbatim>\<open>*\<close> replaced.
\<close>

definition from_key :: "Io \<Rightarrow> string \<Rightarrow> (string \<times> string option \<times> string option) \<Rightarrow> bool" where
  "from_key io key entry =
     ((CHR ''*'' \<notin> set key \<and> entry = feedback_entry io key)
      \<or> (\<exists>pre post j. key = pre @ ''*'' @ post \<and> CHR ''*'' \<notin> set pre
            \<and> entry = feedback_entry io (pre @ show_nat j @ post)))"

text \<open>The items of an array whose nested validation throws something with entries.\<close>

definition failing ::
  "(jsval \<Rightarrow> (string \<times> rules) list \<Rightarrow> thrown + bool) \<Rightarrow> string \<Rightarrow> rules \<Rightarrow> nat \<times> jsval \<Rightarrow> bool" where
  "failing nested field rs it =
     (\<exists>errs. nested (snd it) [(last (split_on CHR ''.'' field), rs)] = Inl errs
        \<and> thrown_entries errs \<noteq> [])"

section \<open>Runs\<close>

text \<open>
  What happens to an \<^verbatim>\<open>Io\<close> over time, one action after the other (the program is
  single-threaded, every callback runs to its end):
  \<^item> the tree changes and the reactive substrate calls the callback of a watcher with the
    new and the old value (the root of the tree is a keyed map, given by its entries);
  \<^item> time passes;
  \<^item> the runtime fires a pending timer. A timer fires no earlier than it is due; the
    firing takes it out of the pending timers and runs its callback;
  \<^item> the caller calls \<^verbatim>\<open>update\<close>.
  An exception ends the callback, or the call of \<^verbatim>\<open>update\<close>, that throws it, and
  nothing else: the object stays as it is at the throw, the pending timers stay pending,
  and the run goes on with the next action.
\<close>

datatype action =
    Observe "(string \<times> jsval) list" string string jsval jsval
  | Elapse nat
  | Expire nat
  | Update "(string \<times> jsval) list"

definition state_of :: "thrown \<times> Io + Io \<Rightarrow> Io" where
  "state_of r = (case r of Inl (t, io) \<Rightarrow> io | Inr io \<Rightarrow> io)"

fun perform :: "env \<Rightarrow> Io \<Rightarrow> action \<Rightarrow> Io" where
  "perform e io (Observe tree field path v oldValue) =
     state_of (watcher_callback e (io\<lparr> form := JObj tree \<rparr>) field path v oldValue)"
| "perform e io (Elapse d) = io\<lparr> clock := clock io + d \<rparr>"
| "perform e io (Expire handle) =
     (case find (\<lambda>t. fst t = handle) (timers io) of
        None \<Rightarrow> io
      | Some timer \<Rightarrow>
          (if fst (snd timer) \<le> clock io
           then state_of (timeout_callback (clearTimeout io handle) (snd (snd timer)))
           else io))"
| "perform e io (Update data) = state_of (update io data)"

fun run :: "env \<Rightarrow> Io \<Rightarrow> action list \<Rightarrow> Io" where
  "run e io [] = io"
| "run e io (a # as) = run e (perform e io a) as"













section \<open>Properties of the string primitives\<close>

lemma split_on_not_Nil: "split_on c s \<noteq> []"
  by (induction s) auto

lemma split_on_no_sep: "x \<in> set (split_on c s) \<Longrightarrow> c \<notin> set x"
proof (induction s arbitrary: x)
  case Nil
  then show ?case by simp
next
  case (Cons a s)
  have ne: "split_on c s \<noteq> []" by (rule split_on_not_Nil)
  show ?case
  proof (cases "a = c")
    case True
    with Cons show ?thesis by auto
  next
    case False
    with Cons.prems have "x = a # hd (split_on c s) \<or> x \<in> set (tl (split_on c s))"
      by simp
    then show ?thesis
    proof
      assume "x = a # hd (split_on c s)"
      moreover have "c \<notin> set (hd (split_on c s))"
        using Cons.IH ne by (simp add: hd_in_set)
      ultimately show ?thesis using False by auto
    next
      assume "x \<in> set (tl (split_on c s))"
      then have "x \<in> set (split_on c s)" using ne by (meson list.set_sel(2))
      then show ?thesis by (rule Cons.IH)
    qed
  qed
qed

lemma split_on_append_sep:
  "c \<notin> set x \<Longrightarrow> split_on c (x @ c # s) = x # split_on c s"
  by (induction x) auto

lemma split_on_no_occurrence: "c \<notin> set x \<Longrightarrow> split_on c x = [x]"
  by (induction x) auto

lemma split_on_join:
  "xs \<noteq> [] \<Longrightarrow> list_all (\<lambda>x. c \<notin> set x) xs \<Longrightarrow> split_on c (join_with [c] xs) = xs"
proof (induction xs rule: induct_list012)
  case 1
  then show ?case by simp
next
  case (2 s)
  then show ?case by (simp add: split_on_no_occurrence)
next
  case (3 s t ss)
  then show ?case by (simp add: split_on_append_sep)
qed

lemma wildcard_segment_no_dot:
  "CHR ''.'' \<notin> set x \<Longrightarrow> CHR ''.'' \<notin> set (wildcard_segment x)"
  by (simp add: wildcard_segment_def)

lemma wildcard_segment_idem: "wildcard_segment (wildcard_segment x) = wildcard_segment x"
  by (simp add: wildcard_segment_def re_digits_star_def is_digit_def)

lemma split_toWildcardPath:
  "split_on CHR ''.'' (toWildcardPath p) = map wildcard_segment (split_on CHR ''.'' p)"
proof -
  have "CHR ''.'' \<notin> set (wildcard_segment x)" if "x \<in> set (split_on CHR ''.'' p)" for x
    using that by (intro wildcard_segment_no_dot) (rule split_on_no_sep)
  then have "list_all (\<lambda>x. CHR ''.'' \<notin> set x) (map wildcard_segment (split_on CHR ''.'' p))"
    by (simp add: list_all_iff)
  moreover have "map wildcard_segment (split_on CHR ''.'' p) \<noteq> []"
    by (simp add: split_on_not_Nil)
  ultimately show ?thesis
    unfolding toWildcardPath_def by (rule split_on_join [rotated])
qed

section \<open>C3: the wildcard conversion\<close>

text \<open>
  C3 (as the code has it). For every path \<open>p\<close>, the segments of \<open>toWildcardPath p\<close> are the
  segments of \<open>p\<close>, in order, where a segment is replaced by \<open>*\<close> exactly when it is
  purely numeric or empty, and every other segment is unchanged; and the conversion is
  idempotent.
\<close>

theorem toWildcardPath_segments_idempotent:
  "split_on CHR ''.'' (toWildcardPath p) =
     map (\<lambda>s. if s = [] \<or> purely_numeric s then ''*'' else s) (split_on CHR ''.'' p)
   \<and> toWildcardPath (toWildcardPath p) = toWildcardPath p"
proof
  have "wildcard_segment = (\<lambda>s. if s = [] \<or> purely_numeric s then ''*'' else s)"
    by (auto simp: wildcard_segment_def re_digits_star_def purely_numeric_def fun_eq_iff)
  then show "split_on CHR ''.'' (toWildcardPath p) =
     map (\<lambda>s. if s = [] \<or> purely_numeric s then ''*'' else s) (split_on CHR ''.'' p)"
    by (simp add: split_toWildcardPath)
next
  have "toWildcardPath (toWildcardPath p) =
      join_with ''.'' (map wildcard_segment (split_on CHR ''.'' (toWildcardPath p)))"
    by (simp add: toWildcardPath_def)
  also have "\<dots> = join_with ''.'' (map wildcard_segment (map wildcard_segment (split_on CHR ''.'' p)))"
    by (simp only: split_toWildcardPath)
  also have "\<dots> = toWildcardPath p"
    by (simp add: toWildcardPath_def wildcard_segment_idem comp_def)
  finally show "toWildcardPath (toWildcardPath p) = toWildcardPath p" .
qed

theorem toWildcardPath_segments_idempotent_witness:
  "toWildcardPath ''services.0.url'' = ''services.*.url''
   \<and> toWildcardPath (toWildcardPath ''services.0.url'') = toWildcardPath ''services.0.url''"
  using toWildcardPath_segments_idempotent [of "''services.0.url''"]
  by (simp add: toWildcardPath_def wildcard_segment_def re_digits_star_def is_digit_def)

text \<open>
  C3 as stated fails on a path with an empty segment: the empty segment is not numeric,
  yet it is replaced.
\<close>

theorem toWildcardPath_empty_segment_counterexample:
  "toWildcardPath ''a..b'' = ''a.*.b'' \<and> spec_toWildcardPath ''a..b'' = ''a..b''"
  by (simp add: toWildcardPath_def spec_toWildcardPath_def wildcard_segment_def
      spec_wildcard_segment_def re_digits_star_def purely_numeric_def is_digit_def)

section \<open>Properties of objects kept as lists, and of replace\<close>

lemma map_of_obj_set: "map_of (obj_set kvs k v) k' = (if k' = k then Some v else map_of kvs k')"
  by (induction kvs k v rule: obj_set.induct) auto

lemma map_of_obj_assign_other:
  "k \<notin> fst ` set source \<Longrightarrow> map_of (obj_assign target source) k = map_of target k"
  by (induction target source rule: obj_assign.induct) (auto simp: map_of_obj_set)

lemma map_of_obj_assign_in:
  "distinct (map fst source) \<Longrightarrow> (k, v) \<in> set source \<Longrightarrow>
     map_of (obj_assign target source) k = Some v"
proof (induction target source rule: obj_assign.induct)
  case (1 target)
  then show ?case by simp
next
  case (2 target k' v' source)
  show ?case
  proof (cases "(k, v) \<in> set source")
    case True
    with 2 show ?thesis by simp
  next
    case False
    with 2 have "k' = k" "v' = v" "k \<notin> fst ` set source" by auto
    then show ?thesis by (simp add: map_of_obj_assign_other map_of_obj_set)
  qed
qed

lemma js_replace_first:
  "c \<notin> set pre \<Longrightarrow> js_replace [c] rep (pre @ c # post) = pre @ rep @ post"
  by (induction pre) auto

lemma js_replace_keeps_second:
  "2 \<le> count_list s c \<Longrightarrow> c \<in> set (js_replace [c] rep s)"
proof (induction s)
  case Nil
  then show ?case by simp
next
  case (Cons x s)
  show ?case
  proof (cases "x = c")
    case True
    with Cons.prems have "1 \<le> count_list s c" by simp
    then have "c \<in> set s" by (metis count_list_0_iff not_one_le_zero)
    with True show ?thesis by simp
  next
    case False
    with Cons show ?thesis by simp
  qed
qed

section \<open>The recursion of Validate\<close>

text \<open>
  The nested validation receives one field without a dot, so it never calls a nested
  validation itself: \<open>validate\<close> satisfies the recursive equation of the source, in
  which the nested call is \<open>validate\<close> again.
\<close>

lemma last_segment_no_dot: "\<not> includes_char (last (split_on CHR ''.'' field)) CHR ''.''"
  using split_on_no_sep [of "last (split_on CHR ''.'' field)" "CHR ''.''" field]
    split_on_not_Nil [of "CHR ''.''" field]
  by (simp add: includes_char_def)

lemma validate_field_plain:
  "\<not> includes_char field CHR ''.'' \<Longrightarrow>
     validate_field n1 e data oi (field, rs) b = validate_field n2 e data oi (field, rs) b"
  by (simp add: validate_field_def)

lemma validate_item_plain:
  "\<not> includes_char field CHR ''.'' \<Longrightarrow>
     validate e item [(field, rs)] None None = validate_item e item [(field, rs)]"
  using validate_field_plain [of field "validate_item e" e item None rs "[]" "\<lambda>i r. Inl RuntimeError"]
  by (simp add: validate_def validate_item_def validate_with_def split: sum.splits)

lemma expand_items_cong:
  "(\<And>item. n1 item [(last (split_on CHR ''.'' field), rs)] =
       n2 item [(last (split_on CHR ''.'' field), rs)]) \<Longrightarrow>
     expand_items n1 field rs oi items b = expand_items n2 field rs oi items b"
  by (induction items arbitrary: b) auto

lemma walk_nodes_cong:
  "(\<And>item. n1 item [(last (split_on CHR ''.'' field), rs)] =
       n2 item [(last (split_on CHR ''.'' field), rs)]) \<Longrightarrow>
     walk_nodes n1 field rs oi nodes v b = walk_nodes n2 field rs oi nodes v b"
proof (induction nodes arbitrary: v b)
  case Nil
  then show ?case by simp
next
  case (Cons node nodes)
  then show ?case
    using expand_items_cong [of n1 field rs n2 oi]
    by (auto split: jsval.splits)
qed

lemma validate_fields_cong:
  "(\<And>item field rs. n1 item [(last (split_on CHR ''.'' field), rs)] =
       n2 item [(last (split_on CHR ''.'' field), rs)]) \<Longrightarrow>
     validate_fields n1 e data oi entries b = validate_fields n2 e data oi entries b"
proof (induction entries arbitrary: b)
  case Nil
  then show ?case by simp
next
  case (Cons entry entries)
  have "validate_field n1 e data oi entry b = validate_field n2 e data oi entry b"
    using walk_nodes_cong [of n1 "fst entry" "snd entry" n2 oi] Cons.prems
    by (simp add: validate_field_def Let_def)
  with Cons show ?case by (simp split: sum.splits)
qed

lemma validate_unfold:
  "validate e data rs customTest overrideIndex =
     validate_with (\<lambda>item r. validate e item r None None) e data rs customTest overrideIndex"
proof -
  have "validate_fields (validate_item e) e data overrideIndex rs [] =
      validate_fields (\<lambda>item r. validate e item r None None) e data overrideIndex rs []"
    by (rule validate_fields_cong) (simp add: validate_item_plain last_segment_no_dot)
  then show ?thesis by (simp add: validate_def validate_with_def)
qed

text \<open>The loop over the rule map, on a rule map in two parts.\<close>

lemma validate_fields_append:
  "validate_fields n e data oi (xs @ ys) b =
     (case validate_fields n e data oi xs b of
        Inl t \<Rightarrow> Inl t
      | Inr b' \<Rightarrow> validate_fields n e data oi ys b')"
  by (induction xs arbitrary: b) (auto split: sum.splits)

section \<open>C6: the label of a message\<close>

text \<open>
  C6. In a bag whose label is \<^verbatim>\<open>Label\<close>, after \<^verbatim>\<open>record({k: x})\<close> with a bare string
  \<open>x\<close>, \<^verbatim>\<open>get(k)\<close> returns \<^verbatim>\<open>Label: x\<close> when \<open>x\<close> has no colon and \<open>x\<close> itself when
  it has one; after \<^verbatim>\<open>record({k: [m, ...]})\<close> it returns the first message \<open>m\<close> of the
  list, with the same rule for the label. Whatever the bag held before.
\<close>

theorem record_then_get:
  assumes "label B = Some ''Label''"
  shows "Bag_get (Bag_record B [(k, Bare x)]) k None =
           Inr (Some (if includes_char x CHR '':'' then x else ''Label: '' @ x))
       \<and> Bag_get (Bag_record B [(k, Listed (m # ms))]) k None =
           Inr (Some (if includes_char m CHR '':'' then m else ''Label: '' @ m))"
  using assms
  by (simp add: Bag_get_def Bag_record_def Bag_emit_def bag_key_def map_of_obj_set
      label_truthy_def)

theorem record_then_get_witness:
  "label (Bag_new [] (Some ''Label'')) = Some ''Label''
   \<and> Bag_get (Bag_record (Bag_new [] (Some ''Label'')) [(''a'', Bare ''x'')]) ''a'' None =
       Inr (Some ''Label: x'')
   \<and> Bag_get (Bag_record (Bag_new [] (Some ''Label'')) [(''a'', Listed [''url: bad'', ''y''])])
         ''a'' None = Inr (Some ''url: bad'')"
proof -
  have h: "label (Bag_new [] (Some ''Label'')) = Some ''Label''"
    by (simp add: Bag_new_def)
  show ?thesis
    using h record_then_get [OF h, of "''a''" "''x''" "''url: bad''" "[''y'']"]
    by (simp add: includes_char_def)
qed

section \<open>C7: the notifications of a bag\<close>

text \<open>
  C7 (as the code has it). Every \<^verbatim>\<open>record\<close>, every \<^verbatim>\<open>replace\<close> and every \<^verbatim>\<open>clear\<close>
  without a path, or with the empty path, emits exactly one \<^verbatim>\<open>update\<close> (and the clear
  empties the bag); a \<^verbatim>\<open>clear\<close> with a non-empty path emits nothing and deletes that
  path only. \<^verbatim>\<open>record\<close> leaves the messages of the paths it is not given as they were,
  stores a bare string as a one-element list and a list as it is.
\<close>

theorem bag_notifications:
  "emitted (Bag_record B messages) = emitted B @ [''update'']
   \<and> emitted (Bag_replace B messages) = emitted B @ [''update'']
   \<and> emitted (Bag_clear B None) = emitted B @ [''update'']
   \<and> bag (Bag_clear B None) = []
   \<and> emitted (Bag_clear B (Some [])) = emitted B @ [''update'']
   \<and> bag (Bag_clear B (Some [])) = []
   \<and> (path \<noteq> [] \<longrightarrow> emitted (Bag_clear B (Some path)) = emitted B
        \<and> bag (Bag_clear B (Some path)) = obj_delete (bag B) path)
   \<and> (k \<notin> fst ` set messages \<longrightarrow> map_of (bag (Bag_record B messages)) k = map_of (bag B) k)
   \<and> (distinct (map fst messages) \<and> (k1, Bare s) \<in> set messages \<longrightarrow>
        map_of (bag (Bag_record B messages)) k1 = Some (Listed [s]))
   \<and> (distinct (map fst messages) \<and> (k2, Listed ms) \<in> set messages \<longrightarrow>
        map_of (bag (Bag_record B messages)) k2 = Some (Listed ms))"
proof -
  let ?coerced = "map (\<lambda>km. (fst km, coerce (snd km))) messages"
  have fst_set: "fst ` set ?coerced = fst ` set messages" by force
  have other: "k \<notin> fst ` set messages \<Longrightarrow>
      map_of (obj_assign (bag B) ?coerced) k = map_of (bag B) k"
    using map_of_obj_assign_other [of k ?coerced "bag B"] fst_set by simp
  have stored: "map_of (obj_assign (bag B) ?coerced) k' = Some (coerce m)"
    if "distinct (map fst messages)" "(k', m) \<in> set messages" for m k'
  proof -
    from that(2) have "(k', coerce m) \<in> set ?coerced" by force
    moreover have "distinct (map fst ?coerced)" using that(1) by (simp add: comp_def)
    ultimately show ?thesis by (intro map_of_obj_assign_in)
  qed
  show ?thesis
    using other stored [of k1 "Bare s"] stored [of k2 "Listed ms"]
    by (simp add: Bag_record_def Bag_replace_def Bag_clear_def Bag_emit_def)
qed

theorem bag_notifications_witness:
  "emitted (Bag_record (Bag_new [(''b'', Listed [''old''])] None)
      [(''a'', Bare ''x''), (''c'', Listed [''y'', ''z''])]) = [''update'']
   \<and> emitted (Bag_clear (Bag_new [(''b'', Listed [''old''])] None) (Some ''b'')) = []
   \<and> bag (Bag_clear (Bag_new [(''b'', Listed [''old''])] None) (Some ''b'')) = []
   \<and> map_of (bag (Bag_record (Bag_new [(''b'', Listed [''old''])] None)
      [(''a'', Bare ''x''), (''c'', Listed [''y'', ''z''])])) ''b'' = Some (Listed [''old''])
   \<and> map_of (bag (Bag_record (Bag_new [(''b'', Listed [''old''])] None)
      [(''a'', Bare ''x''), (''c'', Listed [''y'', ''z''])])) ''a'' = Some (Listed [''x''])
   \<and> map_of (bag (Bag_record (Bag_new [(''b'', Listed [''old''])] None)
      [(''a'', Bare ''x''), (''c'', Listed [''y'', ''z''])])) ''c'' = Some (Listed [''y'', ''z''])"
  using bag_notifications [of "Bag_new [(''b'', Listed [''old''])] None"
      "[(''a'', Bare ''x''), (''c'', Listed [''y'', ''z''])]" "''b''" "''b''"
      "''a''" "''x''" "''c''" "[''y'', ''z'']"]
  by (simp add: Bag_new_def obj_delete_def)

text \<open>
  C7 as stated fails for the empty path: \<^verbatim>\<open>clear('')\<close> is a clear with a path argument,
  yet the empty string is falsy, so the whole bag is reset and \<^verbatim>\<open>update\<close> is emitted.
\<close>

theorem clear_empty_path_counterexample:
  "emitted (Bag_clear (Bag_new [(''a'', Listed [''x''])] None) (Some '''')) = [''update'']
   \<and> bag (Bag_clear (Bag_new [(''a'', Listed [''x''])] None) (Some '''')) = []"
  by (simp add: Bag_clear_def Bag_new_def Bag_emit_def)

section \<open>C10: only the first wildcard is replaced\<close>

subsection \<open>The first occurrence\<close>

lemma js_replace_star:
  "CHR ''*'' \<notin> set pre \<Longrightarrow> key = pre @ ''*'' @ post \<Longrightarrow>
     js_replace ''*'' rep key = pre @ rep @ post"
  using js_replace_first [of "CHR ''*''" pre rep post] by simp

lemma js_replace_absent: "c \<notin> set s \<Longrightarrow> js_replace [c] rep s = s"
  by (induction s) auto

lemma two_occurrences:
  assumes "2 \<le> count_list s c"
  shows "\<exists>pre post. s = pre @ c # post \<and> c \<notin> set pre \<and> c \<in> set post"
proof -
  from assms have "c \<in> set s" by (metis count_list_0_iff not_numeral_le_zero)
  then obtain pre post where s: "s = pre @ c # post" and pre: "c \<notin> set pre"
    by (meson split_list_first)
  from pre have "count_list pre c = 0" by (simp add: count_list_0_iff)
  with assms s have "1 \<le> count_list post c" by simp
  then have "c \<in> set post" by (metis count_list_0_iff not_one_le_zero)
  with s pre show ?thesis by blast
qed

subsection \<open>The bag\<close>

lemma Bag_get_index:
  "CHR ''*'' \<notin> set pre \<Longrightarrow> key = pre @ ''*'' @ post \<Longrightarrow>
     Bag_get B key (Some i) = Bag_get B (pre @ show_nat i @ post) None"
  using js_replace_star [of pre key post "show_nat i"] by (simp add: Bag_get_def bag_key_def)

lemma Bag_get_concrete:
  assumes "2 \<le> count_list path CHR ''*''"
    and "\<forall>k \<in> fst ` set (bag B). CHR ''*'' \<notin> set k"
  shows "Bag_get B path (Some i) = Inr None"
proof -
  have "CHR ''*'' \<in> set (bag_key path (Some i))"
    using js_replace_keeps_second [OF assms(1)] by (simp add: bag_key_def)
  with assms(2) have "bag_key path (Some i) \<notin> fst ` set (bag B)" by blast
  then have "map_of (bag B) (bag_key path (Some i)) = None" by (simp add: map_of_eq_None_iff)
  then show ?thesis by (simp add: Bag_get_def)
qed

subsection \<open>The feedback\<close>

lemma feedback_leaf_entry:
  "feedback_leaf io key None = Inr leaf \<Longrightarrow> (key, leaf) = feedback_entry io key"
  by (auto simp: feedback_leaf_def feedback_entry_def split: sum.splits)

lemma feedback_leaf_index:
  assumes "CHR ''*'' \<notin> set pre" and "key = pre @ ''*'' @ post"
  shows "feedback_leaf io key (Some i) = feedback_leaf io (pre @ show_nat i @ post) None"
proof -
  have e: "Bag_get B key (Some i) = Bag_get B (pre @ show_nat i @ post) None" for B
    using assms by (rule Bag_get_index)
  show ?thesis unfolding feedback_leaf_def e ..
qed

lemma feedback_items_exact:
  assumes "CHR ''*'' \<notin> set pre" and "key = pre @ ''*'' @ post"
  shows "feedback_items io key items sets = Inr sets' \<Longrightarrow>
     sets' = sets @ map (\<lambda>it. feedback_entry io (pre @ show_nat (fst it) @ post)) items"
proof (induction items arbitrary: sets)
  case Nil
  then show ?case by simp
next
  case (Cons it items)
  obtain index item where it: "it = (index, item)" by (cases it)
  from Cons.prems obtain leaf where
    l: "feedback_leaf io key (Some index) = Inr leaf"
    and rest: "feedback_items io key items (sets @ [(feedback_key key index, leaf)]) = Inr sets'"
    by (auto simp: it split: sum.splits)
  have k: "feedback_key key index = pre @ show_nat index @ post"
    using js_replace_star [OF assms] by (simp add: feedback_key_def)
  from l have "feedback_leaf io (pre @ show_nat index @ post) None = Inr leaf"
    using feedback_leaf_index [OF assms] by simp
  then have "(pre @ show_nat index @ post, leaf) = feedback_entry io (pre @ show_nat index @ post)"
    by (rule feedback_leaf_entry)
  with Cons.IH [OF rest] k show ?case by (simp add: it)
qed

lemma feedback_segments_entries:
  assumes "CHR ''*'' \<notin> set pre" and "key = pre @ ''*'' @ post"
  shows "feedback_segments io key segs node sets = Inr sets' \<Longrightarrow>
     \<exists>js. sets' = sets @ map (\<lambda>j. feedback_entry io (pre @ show_nat j @ post)) js"
proof (induction segs arbitrary: node sets)
  case Nil
  then have "sets' = sets @ map (\<lambda>j. feedback_entry io (pre @ show_nat j @ post)) []" by simp
  then show ?case by blast
next
  case (Cons segment segs)
  show ?case
  proof (cases "segment = ''*''")
    case False
    with Cons.prems have
      "feedback_segments io key segs (get_prop node segment) sets = Inr sets'"
      by (simp split: if_splits)
    then show ?thesis by (rule Cons.IH)
  next
    case True
    with Cons.prems obtain xs sets1 where
      items: "feedback_items io key (indexed 0 xs) sets = Inr sets1"
      and rest: "feedback_segments io key segs node sets1 = Inr sets'"
      by (auto split: jsval.splits sum.splits)
    from Cons.IH [OF rest] obtain js where
      js: "sets' = sets1 @ map (\<lambda>j. feedback_entry io (pre @ show_nat j @ post)) js"
      by blast
    have "sets' = sets @ map (\<lambda>j. feedback_entry io (pre @ show_nat j @ post))
        (map fst (indexed 0 xs) @ js)"
      using feedback_items_exact [OF assms items] js by (simp add: comp_def)
    then show ?thesis by blast
  qed
qed

lemma map_fst_indexed: "map fst (indexed i xs) = [i..<i + length xs]"
  by (induction xs arbitrary: i) (auto simp: upt_rec)

lemma feedback_keys_entries:
  "feedback_keys io keys sets = Inr sets' \<Longrightarrow>
     \<exists>others. sets' = sets @ others \<and> (\<forall>entry \<in> set others. \<exists>key \<in> set keys. from_key io key entry)"
proof (induction keys arbitrary: sets)
  case Nil
  then show ?case by simp
next
  case (Cons key keys)
  from Cons.prems obtain sets1 where
    first: "(if includes_char key CHR ''*''
            then feedback_segments io key (split_on CHR ''.'' key) (form io) sets
            else (case feedback_leaf io key None of
                    Inl t \<Rightarrow> Inl t
                  | Inr leaf \<Rightarrow> Inr (sets @ [(key, leaf)]))) = Inr sets1"
    and rest: "feedback_keys io keys sets1 = Inr sets'"
    by (auto split: sum.splits)
  have "\<exists>added1. sets1 = sets @ added1 \<and> (\<forall>entry \<in> set added1. from_key io key entry)"
  proof (cases "CHR ''*'' \<in> set key")
    case True
    then obtain pre post where k: "key = pre @ ''*'' @ post" and pre: "CHR ''*'' \<notin> set pre"
      using split_list_first [of "CHR ''*''" key] by auto
    from first True have
      "feedback_segments io key (split_on CHR ''.'' key) (form io) sets = Inr sets1"
      by (simp add: includes_char_def)
    from feedback_segments_entries [OF pre k this] obtain js where
      "sets1 = sets @ map (\<lambda>j. feedback_entry io (pre @ show_nat j @ post)) js"
      by blast
    moreover have "\<forall>entry \<in> set (map (\<lambda>j. feedback_entry io (pre @ show_nat j @ post)) js).
        from_key io key entry"
      using k pre by (auto simp: from_key_def)
    ultimately show ?thesis by blast
  next
    case False
    with first obtain leaf where l: "feedback_leaf io key None = Inr leaf"
      and s: "sets1 = sets @ [(key, leaf)]"
      by (auto simp: includes_char_def split: sum.splits)
    from feedback_leaf_entry [OF l] False have "from_key io key (key, leaf)"
      by (simp add: from_key_def)
    with s show ?thesis by simp
  qed
  then obtain added1 where m1: "sets1 = sets @ added1"
    "\<forall>entry \<in> set added1. from_key io key entry"
    by blast
  from Cons.IH [OF rest] obtain added2 where m2: "sets' = sets1 @ added2"
    "\<forall>entry \<in> set added2. \<exists>key \<in> set keys. from_key io key entry"
    by blast
  have "sets' = sets @ (added1 @ added2)" using m1(1) m2(1) by simp
  moreover have "\<forall>entry \<in> set (added1 @ added2). \<exists>key \<in> set (key # keys). from_key io key entry"
    using m1(2) m2(2) by auto
  ultimately show ?case by blast
qed

lemma createFeedback_entries:
  assumes "createFeedback io = Inr io'"
  shows "\<forall>entry \<in> set (feedback io'). \<exists>key \<in> fst ` set (validation io). from_key io key entry"
proof -
  from assms obtain sets where
    k: "feedback_keys io (map fst (validation io)) [] = Inr sets" and f: "feedback io' = sets"
    by (auto simp: createFeedback_def split: sum.splits)
  from feedback_keys_entries [OF k] show ?thesis unfolding f by auto
qed

lemma createFeedback_prefix:
  assumes pre: "CHR ''*'' \<notin> set pre" and key: "key = pre @ ''*'' @ post"
    and rules: "validation io = (key, rs) # others"
    and segments: "split_on CHR ''.'' key = name # ''*'' # segs" and name: "name \<noteq> ''*''"
    and array: "get_prop (form io) name = JArr xs"
    and c: "createFeedback io = Inr io'"
  shows "take (length xs) (feedback io') =
     map (\<lambda>j. feedback_entry io (pre @ show_nat j @ post)) [0..<length xs]"
proof -
  from c rules obtain sets where
    k: "feedback_keys io (key # map fst others) [] = Inr sets" and f: "feedback io' = sets"
    by (auto simp: createFeedback_def split: sum.splits)
  have star: "includes_char key CHR ''*''" by (simp add: key includes_char_def)
  from k star obtain sets1 where
    first: "feedback_segments io key (name # ''*'' # segs) (form io) [] = Inr sets1"
    and rest: "feedback_keys io (map fst others) sets1 = Inr sets"
    by (auto simp: segments split: sum.splits)
  from first name array obtain s0 where
    items: "feedback_items io key (indexed 0 xs) [] = Inr s0"
    and after: "feedback_segments io key segs (JArr xs) s0 = Inr sets1"
    by (auto split: if_splits sum.splits)
  have "s0 = map (\<lambda>j. feedback_entry io (pre @ show_nat j @ post)) (map fst (indexed 0 xs))"
    using feedback_items_exact [OF pre key items] by (simp add: comp_def)
  then have s0: "s0 = map (\<lambda>j. feedback_entry io (pre @ show_nat j @ post)) [0..<length xs]"
    unfolding map_fst_indexed by simp
  from feedback_segments_entries [OF pre key after] obtain js where
    "sets1 = s0 @ map (\<lambda>j. feedback_entry io (pre @ show_nat j @ post)) js"
    by blast
  moreover from feedback_keys_entries [OF rest] obtain others' where "sets = sets1 @ others'"
    by blast
  ultimately have "sets = s0 @ (map (\<lambda>j. feedback_entry io (pre @ show_nat j @ post)) js @ others')"
    by simp
  moreover have "length s0 = length xs" by (simp add: s0)
  ultimately show ?thesis unfolding f using s0 by simp
qed

subsection \<open>The validator\<close>

lemma obj_set_keys: "fst ` set (obj_set kvs k v) = insert k (fst ` set kvs)"
  by (induction kvs k v rule: obj_set.induct) auto

lemma catch_nested_keys:
  "fst ` set (catch_nested key errs b) =
     (if errs = [] then fst ` set b else insert key (fst ` set b))"
  by (induction key errs b rule: catch_nested.induct) (auto simp: obj_set_keys)

lemma expand_items_keys:
  "fst ` set (expand_items nested field rs oi items b) =
     fst ` set b \<union> (\<lambda>it. error_key field oi (fst it)) ` {it \<in> set items. failing nested field rs it}"
proof (induction items arbitrary: b)
  case Nil
  then show ?case by simp
next
  case (Cons it items)
  obtain index item where it: "it = (index, item)" by (cases it)
  define b' where "b' =
    (case nested item [(last (split_on CHR ''.'' field), rs)] of
       Inr ok \<Rightarrow> b
     | Inl errs \<Rightarrow> catch_nested (error_key field oi index) (thrown_entries errs) b)"
  have step: "expand_items nested field rs oi (it # items) b =
      expand_items nested field rs oi items b'"
    by (simp add: it b'_def)
  have b': "fst ` set b' =
      fst ` set b \<union> (\<lambda>it. error_key field oi (fst it)) ` {x \<in> {it}. failing nested field rs x}"
  proof (cases "nested item [(last (split_on CHR ''.'' field), rs)]")
    case (Inl errs)
    then show ?thesis by (auto simp: b'_def it failing_def catch_nested_keys)
  next
    case (Inr ok)
    then show ?thesis by (auto simp: b'_def it failing_def)
  qed
  have "{x \<in> set (it # items). failing nested field rs x} =
      {x \<in> {it}. failing nested field rs x} \<union> {x \<in> set items. failing nested field rs x}"
    by auto
  then show ?case unfolding step Cons.IH b' by (simp add: image_Un Un_assoc)
qed

lemma walk_nodes_keys:
  "walk_nodes nested field rs oi nodes v b = Inr b' \<Longrightarrow>
     fst ` set b' \<subseteq> fst ` set b \<union> range (error_key field oi)"
proof (induction nodes arbitrary: v b)
  case Nil
  then show ?case by auto
next
  case (Cons node nodes)
  show ?case
  proof (cases "node = ''*''")
    case True
    with Cons.prems obtain xs where
      w: "walk_nodes nested field rs oi nodes v
          (expand_items nested field rs oi (indexed 0 xs) b) = Inr b'"
      by (auto split: jsval.splits)
    have "fst ` set (expand_items nested field rs oi (indexed 0 xs) b) \<subseteq>
        fst ` set b \<union> range (error_key field oi)"
      unfolding expand_items_keys by auto
    with Cons.IH [OF w] show ?thesis by blast
  next
    case False
    with Cons.prems have "walk_nodes nested field rs oi nodes (get_prop v node) b = Inr b'"
      by (simp split: if_splits)
    then show ?thesis by (rule Cons.IH)
  qed
qed

lemma run_rules_throws: "run_rules e data field subject rs msgs = Inl t \<Longrightarrow> t \<noteq> ErrorMap m"
  by (induction rs arbitrary: msgs) (auto split: option.splits rule_result.splits)

lemma walk_nodes_throws: "walk_nodes nested field rs oi nodes v b = Inl t \<Longrightarrow> t = RuntimeError"
  by (induction nodes arbitrary: v b) (auto split: if_splits jsval.splits)

lemma validate_field_result:
  "validate_field nested e data oi (field, rs) [] = Inl t \<Longrightarrow> t \<noteq> ErrorMap m"
  "validate_field nested e data oi (field, rs) [] = Inr b \<Longrightarrow>
     fst ` set b \<subseteq> insert field (range (error_key field oi))"
proof -
  show "t \<noteq> ErrorMap m" if "validate_field nested e data oi (field, rs) [] = Inl t"
    using that run_rules_throws [of e data field "lodash_get data field" "parseRules rs" "[]" t m]
    by (auto simp: validate_field_def run_field_def Let_def
        split: if_splits sum.splits dest: walk_nodes_throws)
  show "fst ` set b \<subseteq> insert field (range (error_key field oi))"
    if "validate_field nested e data oi (field, rs) [] = Inr b"
  proof (cases "includes_char field CHR ''.'' \<and> get_prop data (hd (split_on CHR ''.'' field)) \<noteq> JUndefined")
    case True
    with that obtain b1 where
      w: "walk_nodes nested field rs oi (tl (split_on CHR ''.'' field))
          (get_prop data (hd (split_on CHR ''.'' field))) [] = Inr b1"
      and r: "run_field e data field rs b1 = Inr b"
      by (auto simp: validate_field_def Let_def split: if_splits sum.splits)
    from r obtain msgs where "b = obj_set b1 field (Listed msgs)"
      by (auto simp: run_field_def split: sum.splits)
    with walk_nodes_keys [OF w] show ?thesis by (auto simp: obj_set_keys)
  next
    case False
    with that have "b = [] \<or> run_field e data field rs [] = Inr b"
      by (auto simp: validate_field_def Let_def split: if_splits sum.splits)
    then show ?thesis
      by (auto simp: run_field_def obj_set_keys split: sum.splits)
  qed
qed

lemma validate_keys:
  assumes "validate e data [(field, rs)] None oi = Inl (ErrorMap m)"
  shows "fst ` set m \<subseteq> insert field (range (error_key field oi))"
proof (cases "validate_field (validate_item e) e data oi (field, rs) []")
  case (Inl t)
  with assms have "t = ErrorMap m" by (simp add: validate_def validate_with_def)
  with validate_field_result(1) [OF Inl] show ?thesis by blast
next
  case (Inr b)
  with assms have "filled_errors b None = Inl (ErrorMap m)"
    by (simp add: validate_def validate_with_def)
  then have "m = filter (\<lambda>kv. message_length (snd kv) > 0) b"
    by (simp add: filled_errors_def Let_def split: if_splits)
  with validate_field_result(2) [OF Inr] show ?thesis by auto
qed

text \<open>
  C10. An index put into a wildcard path replaces the first \<^verbatim>\<open>*\<close> only; the text before
  the first \<^verbatim>\<open>*\<close> and all the text after it, further \<^verbatim>\<open>*\<close> included, are kept. For a
  key \<open>pre @ ''*'' @ post\<close> whose \<open>pre\<close> has no \<^verbatim>\<open>*\<close>:
  \<^item> \<^verbatim>\<open>Bag.get(key, i)\<close> is \<^verbatim>\<open>Bag.get\<close> of the path \<open>pre @ i @ post\<close>;
  \<^item> the loop of \<^verbatim>\<open>createFeedback\<close> over the entries of an array adds, for each index
    \<open>i\<close>, the entry of the path \<open>pre @ i @ post\<close>; when the \<^verbatim>\<open>*\<close> is the second segment
    of the first rule key, these are the first entries of the feedback, one for each
    element of the array; and whatever the rule map, every entry of the feedback is the
    entry of a rule key without \<^verbatim>\<open>*\<close> or the entry of such a path;
  \<^item> the expansion of an array by \<^verbatim>\<open>validate\<close> adds to the validator's bag exactly the
    keys \<open>pre @ n @ post\<close> of the items whose nested validation throws messages (\<open>n\<close> is
    the index of the item, or the override index), and every key of the error map that
    \<^verbatim>\<open>validate\<close> throws for this one rule is the rule key itself or such a key.
  So for a path with two or more \<^verbatim>\<open>*\<close> none of these keys is a concrete path: each
  still has a \<^verbatim>\<open>*\<close>, and a bag whose keys are concrete has no message for it.
\<close>

theorem first_wildcard_only:
  assumes "CHR ''*'' \<notin> set pre" and "key = pre @ ''*'' @ post"
  shows "Bag_get B key (Some i) = Bag_get B (pre @ show_nat i @ post) None
       \<and> bag_key key (Some i) = pre @ show_nat i @ post
       \<and> feedback_key key i = pre @ show_nat i @ post
       \<and> error_key key None i = pre @ show_nat i @ post
       \<and> (feedback_items io key items sets = Inr sets' \<longrightarrow>
            sets' = sets @ map (\<lambda>it. feedback_entry io (pre @ show_nat (fst it) @ post)) items)
       \<and> (validation io = (key, rs) # others \<and> split_on CHR ''.'' key = name # ''*'' # segs
            \<and> name \<noteq> ''*'' \<and> get_prop (form io) name = JArr xs \<and> createFeedback io = Inr io' \<longrightarrow>
            take (length xs) (feedback io') =
              map (\<lambda>j. feedback_entry io (pre @ show_nat j @ post)) [0..<length xs])
       \<and> (createFeedback io1 = Inr io1' \<longrightarrow>
            (\<forall>entry \<in> set (feedback io1'). \<exists>k \<in> fst ` set (validation io1).
               (CHR ''*'' \<notin> set k \<and> entry = feedback_entry io1 k)
               \<or> (\<exists>p q j. k = p @ ''*'' @ q \<and> CHR ''*'' \<notin> set p
                     \<and> entry = feedback_entry io1 (p @ show_nat j @ q))))
       \<and> fst ` set (expand_items nested key rs overrideIndex elems b) =
            fst ` set b \<union>
            (\<lambda>it. pre @ show_nat (case overrideIndex of
                                      None \<Rightarrow> fst it
                                    | Some n \<Rightarrow> (if n = 0 then fst it else n)) @ post) `
              {it \<in> set elems.
                 \<exists>errs. nested (snd it) [(last (split_on CHR ''.'' key), rs)] = Inl errs
                   \<and> thrown_entries errs \<noteq> []}
       \<and> (validate e data [(key, rs)] None overrideIndex = Inl (ErrorMap m) \<longrightarrow>
            (\<forall>k \<in> fst ` set m. k = key \<or> (\<exists>n. k = pre @ show_nat n @ post)))
       \<and> (2 \<le> count_list path CHR ''*'' \<longrightarrow>
            includes_char (bag_key path (Some i)) CHR ''*''
          \<and> includes_char (feedback_key path i) CHR ''*''
          \<and> includes_char (error_key path overrideIndex i) CHR ''*''
          \<and> ((\<forall>k \<in> fst ` set (bag B'). CHR ''*'' \<notin> set k) \<longrightarrow> Bag_get B' path (Some i) = Inr None)
          \<and> (validate e data [(path, rs)] None overrideIndex = Inl (ErrorMap m') \<longrightarrow>
               list_all (\<lambda>k. includes_char k CHR ''*'') (map fst m')))
       \<and> ((\<forall>k \<in> fst ` set (validation io2). 2 \<le> count_list k CHR ''*'')
            \<and> createFeedback io2 = Inr io2' \<longrightarrow>
            list_all (\<lambda>entry. includes_char (fst entry) CHR ''*'') (feedback io2'))"
proof -
  have star: "js_replace ''*'' rep key = pre @ rep @ post" for rep
    using assms by (rule js_replace_star)
  have c1: "Bag_get B key (Some i) = Bag_get B (pre @ show_nat i @ post) None"
    using assms by (rule Bag_get_index)
  have c2: "bag_key key (Some i) = pre @ show_nat i @ post"
    "feedback_key key i = pre @ show_nat i @ post"
    "error_key key None i = pre @ show_nat i @ post"
    by (simp_all add: bag_key_def feedback_key_def error_key_def star)
  have c3: "feedback_items io key items sets = Inr sets' \<longrightarrow>
      sets' = sets @ map (\<lambda>it. feedback_entry io (pre @ show_nat (fst it) @ post)) items"
    using feedback_items_exact [OF assms] by blast
  have c4: "validation io = (key, rs) # others \<and> split_on CHR ''.'' key = name # ''*'' # segs
      \<and> name \<noteq> ''*'' \<and> get_prop (form io) name = JArr xs \<and> createFeedback io = Inr io' \<longrightarrow>
      take (length xs) (feedback io') =
        map (\<lambda>j. feedback_entry io (pre @ show_nat j @ post)) [0..<length xs]"
    using createFeedback_prefix [OF assms] by blast
  have c5: "createFeedback io1 = Inr io1' \<longrightarrow>
      (\<forall>entry \<in> set (feedback io1'). \<exists>k \<in> fst ` set (validation io1).
         (CHR ''*'' \<notin> set k \<and> entry = feedback_entry io1 k)
         \<or> (\<exists>p q j. k = p @ ''*'' @ q \<and> CHR ''*'' \<notin> set p
               \<and> entry = feedback_entry io1 (p @ show_nat j @ q)))"
    using createFeedback_entries [of io1 io1'] unfolding from_key_def by blast
  have ek: "error_key key overrideIndex n =
      pre @ show_nat (case overrideIndex of
                        None \<Rightarrow> n
                      | Some n' \<Rightarrow> (if n' = 0 then n else n')) @ post" for n
    by (simp add: error_key_def star)
  have c6: "fst ` set (expand_items nested key rs overrideIndex elems b) =
      fst ` set b \<union>
      (\<lambda>it. pre @ show_nat (case overrideIndex of
                                None \<Rightarrow> fst it
                              | Some n \<Rightarrow> (if n = 0 then fst it else n)) @ post) `
        {it \<in> set elems.
           \<exists>errs. nested (snd it) [(last (split_on CHR ''.'' key), rs)] = Inl errs
             \<and> thrown_entries errs \<noteq> []}"
    unfolding expand_items_keys failing_def ek ..
  have c7: "validate e data [(key, rs)] None overrideIndex = Inl (ErrorMap m) \<longrightarrow>
      (\<forall>k \<in> fst ` set m. k = key \<or> (\<exists>n. k = pre @ show_nat n @ post))"
  proof (intro impI ballI)
    fix k
    assume "validate e data [(key, rs)] None overrideIndex = Inl (ErrorMap m)" "k \<in> fst ` set m"
    with validate_keys have "k = key \<or> k \<in> range (error_key key overrideIndex)" by blast
    then show "k = key \<or> (\<exists>n. k = pre @ show_nat n @ post)" unfolding ek by blast
  qed
  have c8: "includes_char (bag_key path (Some i)) CHR ''*''
      \<and> includes_char (feedback_key path i) CHR ''*''
      \<and> includes_char (error_key path overrideIndex i) CHR ''*''
      \<and> ((\<forall>k \<in> fst ` set (bag B'). CHR ''*'' \<notin> set k) \<longrightarrow> Bag_get B' path (Some i) = Inr None)
      \<and> (validate e data [(path, rs)] None overrideIndex = Inl (ErrorMap m') \<longrightarrow>
           list_all (\<lambda>k. includes_char k CHR ''*'') (map fst m'))"
    if two: "2 \<le> count_list path CHR ''*''"
  proof -
    have keeps: "CHR ''*'' \<in> set (js_replace ''*'' rep path)" for rep
      by (rule js_replace_keeps_second [OF two])
    then have a: "includes_char (bag_key path (Some i)) CHR ''*''
        \<and> includes_char (feedback_key path i) CHR ''*''
        \<and> includes_char (error_key path overrideIndex i) CHR ''*''"
      by (simp add: bag_key_def feedback_key_def error_key_def includes_char_def)
    have b: "(\<forall>k \<in> fst ` set (bag B'). CHR ''*'' \<notin> set k) \<longrightarrow> Bag_get B' path (Some i) = Inr None"
      using Bag_get_concrete [OF two] by blast
    have c: "list_all (\<lambda>k. includes_char k CHR ''*'') (map fst m')"
      if v: "validate e data [(path, rs)] None overrideIndex = Inl (ErrorMap m')"
    proof -
      have "includes_char k CHR ''*''" if "k \<in> fst ` set m'" for k
      proof -
        from validate_keys [OF v] that
        have "k = path \<or> k \<in> range (error_key path overrideIndex)" by blast
        moreover have "CHR ''*'' \<in> set path"
          using two by (metis count_list_0_iff not_numeral_le_zero)
        ultimately show ?thesis using keeps by (auto simp: includes_char_def error_key_def)
      qed
      then show ?thesis by (simp add: list_all_iff)
    qed
    from a b c show ?thesis by blast
  qed
  have c9: "list_all (\<lambda>entry. includes_char (fst entry) CHR ''*'') (feedback io2')"
    if all: "\<forall>k \<in> fst ` set (validation io2). 2 \<le> count_list k CHR ''*''"
      and f: "createFeedback io2 = Inr io2'"
  proof -
    have "includes_char (fst entry) CHR ''*''" if "entry \<in> set (feedback io2')" for entry
    proof -
      from createFeedback_entries [OF f] that obtain k where
        k: "k \<in> fst ` set (validation io2)" and fk: "from_key io2 k entry"
        by blast
      from all k have two: "2 \<le> count_list k CHR ''*''" by blast
      then have "CHR ''*'' \<in> set k" by (metis count_list_0_iff not_numeral_le_zero)
      with fk obtain p q j where
        pq: "k = p @ ''*'' @ q" "CHR ''*'' \<notin> set p"
        and en: "entry = feedback_entry io2 (p @ show_nat j @ q)"
        by (auto simp: from_key_def)
      from pq(2) have "count_list p CHR ''*'' = 0" by (simp add: count_list_0_iff)
      with two pq(1) have "1 \<le> count_list q CHR ''*''" by simp
      then have "CHR ''*'' \<in> set q" by (metis count_list_0_iff not_one_le_zero)
      then show ?thesis by (simp add: en feedback_entry_def includes_char_def)
    qed
    then show ?thesis by (simp add: list_all_iff)
  qed
  show ?thesis
    using c1 c2 c3 c4 c5 c6 c7 c8 c9 by (intro conjI impI) blast+
qed

theorem first_wildcard_only_witness:
  "CHR ''*'' \<notin> set ''a.'' \<and> ''a.*.*'' = ''a.'' @ ''*'' @ ''.*''
   \<and> Bag_get (errors (projr wildcard_start)) ''a.*.*'' (Some 1) =
       Bag_get (errors (projr wildcard_start)) (''a.'' @ show_nat 1 @ ''.*'') None
   \<and> Bag_get (errors (projr wildcard_start)) (''a.'' @ show_nat 1 @ ''.*'') None =
       Inr (Some ''Error: bad'')
   \<and> feedback_items (projr wildcard_start) ''a.*.*'' [(0, JObj []), (1, JObj [])] [] =
       Inr [(''a.0.*'', None, None), (''a.1.*'', Some ''Error: bad'', None)]
   \<and> [(''a.0.*'', None, None), (''a.1.*'', Some ''Error: bad'', None)] =
       [] @ map (\<lambda>it. feedback_entry (projr wildcard_start) (''a.'' @ show_nat (fst it) @ ''.*''))
              [(0, JObj []), (1, JObj [])]
   \<and> createFeedback (projr wildcard_start) = Inr (projr (createFeedback (projr wildcard_start)))
   \<and> feedback (projr (createFeedback (projr wildcard_start))) =
       [(''a.0.*'', None, None), (''a.1.*'', Some ''Error: bad'', None),
        (''a.0.*'', None, None), (''a.1.*'', Some ''Error: bad'', None)]
   \<and> take (length [JObj [], JObj []]) (feedback (projr (createFeedback (projr wildcard_start)))) =
       map (\<lambda>j. feedback_entry (projr wildcard_start) (''a.'' @ show_nat j @ ''.*''))
         [0..<length [JObj [], JObj []]]
   \<and> (\<exists>k \<in> fst ` set (validation (projr wildcard_start)).
         (CHR ''*'' \<notin> set k
            \<and> (''a.1.*'', Some ''Error: bad'', None) = feedback_entry (projr wildcard_start) k)
         \<or> (\<exists>p q j. k = p @ ''*'' @ q \<and> CHR ''*'' \<notin> set p
               \<and> (''a.1.*'', Some ''Error: bad'', None) =
                   feedback_entry (projr wildcard_start) (p @ show_nat j @ q)))
   \<and> map fst (expand_items (validate_item example_env) ''a.*.*'' (RuleString ''required'') None
         [(0, JObj [])] []) = [''a.0.*'']
   \<and> fst ` set (expand_items (validate_item example_env) ''a.*.*'' (RuleString ''required'') None
         [(0, JObj [])] []) =
       fst ` set ([] :: (string \<times> message) list) \<union>
       (\<lambda>it. ''a.'' @ show_nat (case None of
                                  None \<Rightarrow> fst it
                                | Some n \<Rightarrow> (if n = 0 then fst it else n)) @ ''.*'') `
         {it \<in> set [(0, JObj [])].
            \<exists>errs. validate_item example_env (snd it)
                     [(last (split_on CHR ''.'' ''a.*.*''), RuleString ''required'')] = Inl errs
              \<and> thrown_entries errs \<noteq> []}
   \<and> validate example_env (JObj [(''a'', JArr [JObj [], JObj []])])
         [(''a.*.*'', RuleString ''required'')] None None =
       Inl (ErrorMap [(''a.0.*'', Listed [''validation.required'']),
                      (''a.1.*'', Listed [''validation.required'']),
                      (''a.*.*'', Listed [''validation.required''])])
   \<and> (''a.0.*'' = ''a.*.*'' \<or> (\<exists>n. ''a.0.*'' = ''a.'' @ show_nat n @ ''.*''))
   \<and> includes_char (bag_key ''a.*.*'' (Some 1)) CHR ''*''
   \<and> includes_char (feedback_key ''a.*.*'' 1) CHR ''*''
   \<and> includes_char (error_key ''a.*.*'' None 1) CHR ''*''
   \<and> Bag_get (Bag_new [(''a.1.2'', Listed [''bad''])] (Some ''Error'')) ''a.*.*'' (Some 1) = Inr None
   \<and> list_all (\<lambda>k. includes_char k CHR ''*'')
        (map fst [(''a.0.*'', Listed [''validation.required'']),
                  (''a.1.*'', Listed [''validation.required'']),
                  (''a.*.*'', Listed [''validation.required''])])
   \<and> list_all (\<lambda>entry. includes_char (fst entry) CHR ''*'')
        (feedback (projr (createFeedback (projr wildcard_start))))"
proof -
  let ?io = "projr wildcard_start"
  let ?io' = "projr (createFeedback ?io)"
  let ?data = "JObj [(''a'', JArr [JObj [], JObj []])]"
  let ?m = "[(''a.0.*'', Listed [''validation.required'']),
             (''a.1.*'', Listed [''validation.required'']),
             (''a.*.*'', Listed [''validation.required''])]"
  let ?B' = "Bag_new [(''a.1.2'', Listed [''bad''])] (Some ''Error'')"
  have h0: "CHR ''*'' \<notin> set ''a.''" by simp
  have h1: "''a.*.*'' = ''a.'' @ ''*'' @ ''.*''" by simp
  have bg: "Bag_get (errors ?io) (''a.'' @ show_nat 1 @ ''.*'') None = Inr (Some ''Error: bad'')"
    by code_simp
  have fi: "feedback_items ?io ''a.*.*'' [(0, JObj []), (1, JObj [])] [] =
      Inr [(''a.0.*'', None, None), (''a.1.*'', Some ''Error: bad'', None)]"
    by code_simp
  have "\<not> isl (createFeedback ?io)" by code_simp
  then have f: "createFeedback ?io = Inr ?io'" by simp
  have fb: "feedback ?io' =
      [(''a.0.*'', None, None), (''a.1.*'', Some ''Error: bad'', None),
       (''a.0.*'', None, None), (''a.1.*'', Some ''Error: bad'', None)]"
    by code_simp
  have val: "validation ?io = (''a.*.*'', RuleString ''required'') # []" by code_simp
  have seg: "split_on CHR ''.'' ''a.*.*'' = ''a'' # ''*'' # [''*'']" by code_simp
  have arr: "get_prop (form ?io) ''a'' = JArr [JObj [], JObj []]" by code_simp
  have ne: "''a'' \<noteq> ''*''" by simp
  have ex: "map fst (expand_items (validate_item example_env) ''a.*.*'' (RuleString ''required'')
      None [(0, JObj [])] []) = [''a.0.*'']"
    by code_simp
  have vd: "validate example_env ?data [(''a.*.*'', RuleString ''required'')] None None =
      Inl (ErrorMap ?m)"
    by code_simp
  have cnt: "2 \<le> count_list ''a.*.*'' CHR ''*''" by simp
  note t = first_wildcard_only [OF h0 h1, where B = "errors ?io" and i = 1 and io = ?io
      and items = "[(0, JObj []), (1, JObj [])]" and sets = "[]"
      and sets' = "[(''a.0.*'', None, None), (''a.1.*'', Some ''Error: bad'', None)]"
      and rs = "RuleString ''required''" and others = "[]" and name = "''a''" and segs = "[''*'']"
      and xs = "[JObj [], JObj []]" and io' = ?io' and ?io1.0 = ?io and io1' = ?io'
      and nested = "validate_item example_env" and overrideIndex = None
      and elems = "[(0, JObj [])]" and b = "[]" and e = example_env and data = ?data
      and m = ?m and path = "''a.*.*''" and B' = ?B' and m' = ?m and ?io2.0 = ?io and io2' = ?io']
  note c1 = conjunct1 [OF t]
  note r4 = conjunct2 [OF conjunct2 [OF conjunct2 [OF conjunct2 [OF t]]]]
  note c5 = conjunct1 [OF r4]
  note r5 = conjunct2 [OF r4]
  note c6 = conjunct1 [OF r5]
  note r6 = conjunct2 [OF r5]
  note c7 = conjunct1 [OF r6]
  note r7 = conjunct2 [OF r6]
  note c8 = conjunct1 [OF r7]
  note r8 = conjunct2 [OF r7]
  note c9 = conjunct1 [OF r8]
  note r9 = conjunct2 [OF r8]
  note c10 = conjunct1 [OF r9]
  note c11 = conjunct2 [OF r9]
  note w5 = mp [OF c5 fi]
  have h6: "validation ?io = (''a.*.*'', RuleString ''required'') # []
      \<and> split_on CHR ''.'' ''a.*.*'' = ''a'' # ''*'' # [''*'']
      \<and> ''a'' \<noteq> ''*'' \<and> get_prop (form ?io) ''a'' = JArr [JObj [], JObj []]
      \<and> createFeedback ?io = Inr ?io'"
    using val seg ne arr f by (intro conjI)
  note w6 = mp [OF c6 h6]
  have mem: "(''a.1.*'', Some ''Error: bad'', None) \<in> set (feedback ?io')"
    unfolding fb by simp
  note w7 = bspec [OF mp [OF c7 f] mem]
  have key0: "''a.0.*'' \<in> fst ` set ?m" by simp
  note w9 = bspec [OF mp [OF c9 vd] key0]
  note w10 = mp [OF c10 cnt]
  note w10a = conjunct1 [OF w10]
  note w10b = conjunct1 [OF conjunct2 [OF w10]]
  note w10c = conjunct1 [OF conjunct2 [OF conjunct2 [OF w10]]]
  have hB: "\<forall>k \<in> fst ` set (bag ?B'). CHR ''*'' \<notin> set k" by (simp add: Bag_new_def)
  note w10d = mp [OF conjunct1 [OF conjunct2 [OF conjunct2 [OF conjunct2 [OF w10]]]] hB]
  note w10e = mp [OF conjunct2 [OF conjunct2 [OF conjunct2 [OF conjunct2 [OF w10]]]] vd]
  have "\<forall>k \<in> fst ` set (validation ?io). 2 \<le> count_list k CHR ''*''"
    unfolding val by simp
  then have h11: "(\<forall>k \<in> fst ` set (validation ?io). 2 \<le> count_list k CHR ''*'')
      \<and> createFeedback ?io = Inr ?io'"
    using f by (intro conjI)
  note w11 = mp [OF c11 h11]
  show ?thesis
    using h0 h1 c1 bg fi w5 f fb w6 w7 ex c8 vd w9 w10a w10b w10c w10d w10e w11
    by (intro conjI)
qed

section \<open>C4: nullable\<close>

lemma member_of_nullable: "member_of ''nullable'' = Some MNullable"
  by (simp add: member_of_def)

lemma run_rules_nullable:
  "\<not> js_truthy subject \<Longrightarrow> camelCase e (rmethod r) = ''nullable'' \<Longrightarrow>
     run_rules e data field subject (pre @ r # post) msgs = run_rules e data field subject pre msgs"
proof (induction pre arbitrary: msgs)
  case Nil
  then show ?case
    by (simp add: member_of_nullable call_member_def rule_nullable_def)
next
  case (Cons q pre)
  then show ?case
    by (simp split: option.splits rule_result.splits)
qed

text \<open>
  C4 (as the code has it). When the value of a field is falsy, the rule \<^verbatim>\<open>nullable\<close> ends
  the pipeline of the field without a message, whatever rules follow it: the pipeline
  does exactly what the rules before \<^verbatim>\<open>nullable\<close> do (the same messages, or the same
  exception). A pipeline that begins with \<^verbatim>\<open>nullable\<close> records no message, and the
  field gets the empty message list.
\<close>

theorem nullable_short_circuits:
  assumes "\<not> js_truthy subject" and "camelCase e (rmethod r) = ''nullable''"
  shows "run_rules e data field subject (pre @ r # post) msgs =
           run_rules e data field subject pre msgs
       \<and> run_rules e data field subject (r # post) [] = Inr []
       \<and> (parseRules rs = r # post \<and> lodash_get data field = subject \<longrightarrow>
            run_field e data field rs b = Inr (obj_set b field (Listed [])))"
proof -
  have first: "run_rules e data field subject (r # post) [] = Inr []"
    using run_rules_nullable [OF assms, of data field "[]" post "[]"] by simp
  then show ?thesis
    using run_rules_nullable [OF assms] by (auto simp: run_field_def)
qed

theorem nullable_short_circuits_witness:
  "\<not> js_truthy JNull \<and> camelCase example_env (rmethod (parseRule ''nullable'')) = ''nullable''
   \<and> run_rules example_env (JObj [(''website'', JNull)]) ''website'' JNull
        ([parseRule ''required''] @ parseRule ''nullable'' # [parseRule ''url'']) [] =
       Inr [''validation.required'']
   \<and> run_rules example_env (JObj [(''website'', JNull)]) ''website'' JNull
        (parseRule ''nullable'' # [parseRule ''url'']) [] = Inr []
   \<and> run_field example_env (JObj [(''website'', JNull)]) ''website''
        (RuleString ''nullable|url'') [] = Inr (obj_set [] ''website'' (Listed []))"
proof -
  have h1: "\<not> js_truthy JNull" by simp
  have h2: "camelCase example_env (rmethod (parseRule ''nullable'')) = ''nullable''"
    by (simp add: example_env_def parseRule_def includes_char_def)
  note t = nullable_short_circuits [OF h1 h2, of "JObj [(''website'', JNull)]" "''website''"
      "[parseRule ''required'']" "[parseRule ''url'']" "[]" "RuleString ''nullable|url''" "[]"]
  have h3: "parseRules (RuleString ''nullable|url'') = parseRule ''nullable'' # [parseRule ''url'']
      \<and> lodash_get (JObj [(''website'', JNull)]) ''website'' = JNull"
    by (simp add: lodash_get_def cast_path_def nullish_def)
  note f = mp [OF conjunct2 [OF conjunct2 [OF t]] h3]
  have r: "run_rules example_env (JObj [(''website'', JNull)]) ''website'' JNull
      [parseRule ''required''] [] = Inr [''validation.required'']"
    by code_simp
  from t have a: "run_rules example_env (JObj [(''website'', JNull)]) ''website'' JNull
      ([parseRule ''required''] @ parseRule ''nullable'' # [parseRule ''url'']) [] =
      run_rules example_env (JObj [(''website'', JNull)]) ''website'' JNull
        [parseRule ''required''] []"
    by (rule conjunct1)
  from t have c: "run_rules example_env (JObj [(''website'', JNull)]) ''website'' JNull
      (parseRule ''nullable'' # [parseRule ''url'']) [] = Inr []"
    by blast
  show ?thesis using h1 h2 trans [OF a r] c f by (intro conjI)
qed

text \<open>
  C4 as stated fails when a rule before \<^verbatim>\<open>nullable\<close> fails: the pipeline
  \<^verbatim>\<open>required|nullable\<close> has the rule \<^verbatim>\<open>nullable\<close>, the value \<^verbatim>\<open>null\<close> is falsy, and the
  field gets the message of \<^verbatim>\<open>required\<close>.
\<close>

theorem required_before_nullable_counterexample:
  "validate example_env (JObj [(''name'', JNull)]) [(''name'', RuleString ''required|nullable'')]
     None None = Inl (ErrorMap [(''name'', Listed [''validation.required''])])"
  by code_simp

section \<open>C5: unknown rules\<close>





section \<open>C9: a dotted path whose root is undefined\<close>

text \<open>
  C9. For an entry of the rule map whose path has a dot, when the data tree has the value
  \<^verbatim>\<open>undefined\<close> under the first segment of the path, \<^verbatim>\<open>validate\<close> skips the entry: the
  turn of the loop leaves the bag as it is, the validation gives what it gives without
  the entry, and a rule map with this entry alone passes, whatever its pipeline.
\<close>

theorem undefined_root_is_skipped:
  assumes "includes_char field CHR ''.''" and "\<not> nullish data"
    and "get_prop data (hd (split_on CHR ''.'' field)) = JUndefined"
  shows "validate_field nested e data overrideIndex (field, rs) b = Inr b
       \<and> validate e data (before @ (field, rs) # after) customTest overrideIndex =
           validate e data (before @ after) customTest overrideIndex
       \<and> validate e data [(field, rs)] None overrideIndex = Inr True"
proof -
  have skip: "validate_field nested e data overrideIndex (field, rs) b = Inr b" for nested b
    using assms by (simp add: validate_field_def)
  then show ?thesis
    by (simp add: validate_def validate_with_def validate_fields_append filled_errors_def
        split: sum.splits)
qed

theorem undefined_root_is_skipped_witness:
  "includes_char ''metadata.website'' CHR ''.'' \<and> \<not> nullish (JObj [(''title'', JNull)])
   \<and> get_prop (JObj [(''title'', JNull)]) (hd (split_on CHR ''.'' ''metadata.website'')) = JUndefined
   \<and> validate example_env (JObj [(''title'', JNull)])
        [(''metadata.website'', RuleString ''required|url'')] None None = Inr True"
proof -
  have h1: "includes_char ''metadata.website'' CHR ''.''" by (simp add: includes_char_def)
  have h2: "\<not> nullish (JObj [(''title'', JNull)])" by (simp add: nullish_def)
  have h3: "get_prop (JObj [(''title'', JNull)]) (hd (split_on CHR ''.'' ''metadata.website'')) =
      JUndefined"
    by simp
  show ?thesis
    using h1 h2 h3
      undefined_root_is_skipped [OF h1 h2 h3, of _ example_env None
        "RuleString ''required|url''" "[]" "[]" "[]" None]
    by blast
qed

section \<open>C1: the wildcard scenario\<close>

text \<open>
  C1, evaluated. In the scenario the change to \<^verbatim>\<open>not-a-url\<close> emits one \<^verbatim>\<open>change\<close> whose
  errors hold the url message under \<^verbatim>\<open>services.0.url\<close> and, besides, the messages of
  \<^verbatim>\<open>required\<close> and \<^verbatim>\<open>url\<close> under the wildcard path \<^verbatim>\<open>services.*.url\<close> itself (its
  subject \<^verbatim>\<open>_.get(form, 'services.*.url')\<close> is \<^verbatim>\<open>undefined\<close>). The change to
  \<^verbatim>\<open>https://example.com\<close> emits a \<^verbatim>\<open>change\<close> whose errors still hold the wildcard path,
  and the error bag keeps the entry of \<^verbatim>\<open>services.0.url\<close>. Each equation gives the
  events emitted so far and the content of the error bag.
\<close>

theorem wildcard_scenario_errors:
  "map_sum id (\<lambda>io. (map snd (events io), bag (errors io)))
     (and_then scenario_start (scenario_change (JStr ''not-a-url'') JNull)) =
   Inr ([Change ''url'' ''services.0.url'' (JStr ''not-a-url'') JNull
           (ErrorMap [(''services.0.url'', Listed [''validation.url'']),
                      (''services.*.url'', Listed [''validation.required'', ''validation.url''])])],
        [(''services.0.url'', Listed [''validation.url'']),
         (''services.*.url'', Listed [''validation.required'', ''validation.url''])])
   \<and> map_sum id (\<lambda>io. (map snd (events io), bag (errors io)))
     (and_then (and_then scenario_start (scenario_change (JStr ''not-a-url'') JNull))
        (scenario_change (JStr ''https://example.com'') (JStr ''not-a-url''))) =
   Inr ([Change ''url'' ''services.0.url'' (JStr ''not-a-url'') JNull
           (ErrorMap [(''services.0.url'', Listed [''validation.url'']),
                      (''services.*.url'', Listed [''validation.required'', ''validation.url''])]),
         Change ''url'' ''services.0.url'' (JStr ''https://example.com'') (JStr ''not-a-url'')
           (ErrorMap [(''services.*.url'', Listed [''validation.required'', ''validation.url''])])],
        [(''services.0.url'', Listed [''validation.url'']),
         (''services.*.url'', Listed [''validation.required'', ''validation.url''])])"
  by code_simp

section \<open>C2: the watch set\<close>

text \<open>
  C2, evaluated. The leaf paths of the tree \<^verbatim>\<open>{a: {b: {x: 1}, c: 2}}\<close> are \<^verbatim>\<open>a.b.x\<close> and
  \<^verbatim>\<open>a.c\<close>. After \<^verbatim>\<open>update\<close> has put the tree into an empty form, and again after the
  watcher of \<^verbatim>\<open>a.b.x\<close> has observed a change of that leaf, the watch set is \<^verbatim>\<open>a.b.x\<close>,
  \<^verbatim>\<open>a\<close>, \<^verbatim>\<open>c\<close> and the empty path: the leaf \<^verbatim>\<open>a.c\<close> is missing, and three paths are
  there that are no leaf paths.
\<close>

theorem watch_set_misses_a_leaf:
  "map_sum id watchers
     (and_then (Io_new (JObj []) [] [] [])
        (\<lambda>io. update io [(''a'', JObj [(''b'', JObj [(''x'', JNum 1)]), (''c'', JNum 2)])])) =
   Inr [''a.b.x'', ''a'', ''c'', '''']
   \<and> map_sum id watchers
     (and_then
        (and_then (Io_new (JObj []) [] [] [])
           (\<lambda>io. update io [(''a'', JObj [(''b'', JObj [(''x'', JNum 1)]), (''c'', JNum 2)])]))
        (\<lambda>io. watcher_callback example_env
           (io\<lparr> form := JObj [(''a'', JObj [(''b'', JObj [(''x'', JNum 5)]), (''c'', JNum 2)])] \<rparr>)
           ''x'' ''a.b.x'' (JNum 5) (JNum 1))) =
   Inr [''a.b.x'', ''a'', ''c'', '''']"
  by code_simp

section \<open>C8: the debounce\<close>

subsection \<open>What leaves the timers and the log alone\<close>

lemma state_of_Inl: "state_of (Inl (t, io)) = io"
  by (simp add: state_of_def)

lemma state_of_Inr: "state_of (Inr io) = io"
  by (simp add: state_of_def)


















subsection \<open>resetInputTimeout\<close>














subsection \<open>The callback of a timer\<close>




subsection \<open>One action\<close>






subsection \<open>The log\<close>



subsection \<open>Runs\<close>

lemma run_append: "run e io (xs @ ys) = run e (run e io xs) ys"
  by (induction xs arbitrary: io) auto





subsection \<open>The root of the tree\<close>

text \<open>
  The root of the tree is a keyed map in every state of a run: the constructor is given
  one, a watcher observes one, and \<^verbatim>\<open>update\<close> assigns to the properties of one.
\<close>

lemma createFeedback_form: "form (state_of (createFeedback io)) = form io"
  by (simp add: createFeedback_def state_of_def split: sum.splits)

lemma on_errors_form: "form (state_of (on_errors io f)) = form io"
  using createFeedback_form [of "io\<lparr> errors := f (errors io) \<rparr>"]
  by (simp add: on_errors_def state_of_def)

lemma on_errors_form_Inl: "on_errors io f = Inl (t, io') \<Longrightarrow> form io' = form io"
  using on_errors_form [of io f] by (simp add: state_of_def)

lemma on_errors_form_Inr: "on_errors io f = Inr io' \<Longrightarrow> form io' = form io"
  using on_errors_form [of io f] by (simp add: state_of_def)

lemma Io_validate_form_Inl: "Io_validate e io p = Inl (t, io') \<Longrightarrow> form io' = form io"
  by (auto simp: Io_validate_def split: sum.splits prod.splits
      dest!: on_errors_form_Inl on_errors_form_Inr)

lemma Io_validate_form_Inr: "Io_validate e io p = Inr (io', errs) \<Longrightarrow> form io' = form io"
  by (auto simp: Io_validate_def split: sum.splits prod.splits
      dest!: on_errors_form_Inl on_errors_form_Inr)

lemma resetInputTimeout_form: "form (resetInputTimeout io p) = form io"
  by (simp add: resetInputTimeout_def setTimeout_def clearTimeout_def Let_def
      split: option.splits)

lemma onChange_form: "form (state_of (onChange e io field p v oldValue)) = form io"
proof (cases "Io_validate e io p")
  case (Inl x)
  obtain t io' where x: "x = (t, io')" by (cases x)
  from Inl x have "form io' = form io" using Io_validate_form_Inl by blast
  with Inl x show ?thesis by (simp add: onChange_def state_of_def)
next
  case (Inr r)
  obtain io1 errs where r: "r = (io1, errs)" by (cases r)
  from Inr r have f1: "form io1 = form io" using Io_validate_form_Inr by blast
  let ?io2 = "resetInputTimeout io1 p"
  have f2: "form (state_of (createFeedback ?io2)) = form io"
    using createFeedback_form [of ?io2] f1 by (simp add: resetInputTimeout_form)
  show ?thesis
  proof (cases "createFeedback ?io2")
    case (Inl y)
    then have "state_of (onChange e io field p v oldValue) = state_of (createFeedback ?io2)"
      using Inr r by (simp add: onChange_def)
    then show ?thesis using f2 by simp
  next
    case (Inr io3)
    then have "state_of (onChange e io field p v oldValue) =
        Io_emit io3 (Change field p v oldValue errs)"
      using \<open>Io_validate e io p = Inr r\<close> r by (simp add: onChange_def state_of_def)
    moreover have "form io3 = form io" using f2 Inr by (simp add: state_of_def)
    ultimately show ?thesis by (simp add: Io_emit_def)
  qed
qed

lemma rewatch_form: "form (state_of (rewatch io)) = form io"
  by (simp add: rewatch_def state_of_def split: sum.splits prod.splits)

lemma watcher_callback_form:
  "form (state_of (watcher_callback e io field p v oldValue)) = form io"
proof (cases "v = oldValue")
  case True
  then show ?thesis using rewatch_form [of io] by (simp add: watcher_callback_def)
next
  case False
  show ?thesis
  proof (cases "onChange e io field p v oldValue")
    case (Inl x)
    then show ?thesis
      using False onChange_form [of e io field p v oldValue] by (simp add: watcher_callback_def)
  next
    case (Inr io1)
    then have "form io1 = form io"
      using onChange_form [of e io field p v oldValue] by (simp add: state_of_def)
    then show ?thesis
      using False Inr rewatch_form [of io1] by (simp add: watcher_callback_def)
  qed
qed

lemma timeout_callback_form: "form (state_of (timeout_callback io p)) = form io"
  by (simp add: timeout_callback_def state_of_def Io_emit_def split: sum.splits)

lemma update_form: "isObject (form io) \<Longrightarrow> isObject (form (state_of (update io data)))"
proof (cases "form io")
  case (JObj kvs)
  let ?io = "io\<lparr> form := JObj (obj_assign kvs data) \<rparr>"
  show ?thesis
  proof (cases "rewatch ?io")
    case (Inl x)
    then have "state_of (update io data) = state_of (rewatch ?io)"
      using JObj by (simp add: update_def)
    then show ?thesis using rewatch_form [of ?io] by simp
  next
    case (Inr io1)
    then have "state_of (update io data) = state_of (createFeedback io1)"
      using JObj by (simp add: update_def)
    moreover have "form io1 = form ?io"
      using rewatch_form [of ?io] Inr by (simp add: state_of_def)
    ultimately show ?thesis using createFeedback_form [of io1] by simp
  qed
qed simp_all

lemma perform_form:
  assumes "isObject (form io)"
  shows "isObject (form (perform e io a))"
proof (cases a)
  case (Observe tree field p v oldValue)
  then show ?thesis using watcher_callback_form by simp
next
  case (Elapse d)
  with assms show ?thesis by simp
next
  case (Expire handle)
  from assms have "isObject (form (state_of (timeout_callback (clearTimeout io handle) q)))" for q
    by (simp add: timeout_callback_form clearTimeout_def)
  with Expire assms show ?thesis by (simp split: option.splits)
next
  case (Update data)
  with assms show ?thesis using update_form by simp
qed

lemma run_form: "isObject (form io) \<Longrightarrow> isObject (form (run e io as))"
  by (induction as arbitrary: io) (auto intro: perform_form)

lemma Io_new_form: "Io_new f rs errs succ = Inr io \<Longrightarrow> form io = f"
proof -
  assume "Io_new f rs errs succ = Inr io"
  then obtain io1 where "createFeedback io1 = Inr io" and "form io1 = f"
    by (auto simp: Io_new_def split: sum.splits prod.splits)
  then show ?thesis using createFeedback_form [of io1] by (simp add: state_of_def)
qed




end
